theory Spec2Isabelle
  imports
    Complex_Main
    "HOL-Library.Char_ord"
    "HOL-Library.List_Lexorder"
    "HOL-Library.Sublist"
begin

section \<open>Sentinel-2 grid explorer: selection and spatial-query core of script.js\<close>

text \<open>
  The development embeds the functions of \<^verbatim>\<open>script.js\<close> that decide which grid
  tiles are visible, hit by a click or a rectangle, held in the selection, and written to
  the share URL and the CSV export.

  Conventions of the embedding.
  \<^item> A JavaScript number is a \<open>jsnum\<close>: a rational, one of the two infinities, or NaN.
    Arithmetic on finite values is exact (rounding of IEEE doubles and the sign of zero
    are not represented); \<open>undefined\<close> read in a numeric position is NaN.
  \<^item> A JavaScript string is a \<open>string\<close> of ASCII characters; \<open>toUpperCase\<close>,
    \<open>toLowerCase\<close> and \<open>trim\<close> act on ASCII letters and ASCII white space.
  \<^item> Property values of a feature are strings; a feature and the elements of every
    array are objects, never \<open>null\<close>. The field \<open>ref\<close> of a feature stands for the
    identity of the object, so that HOL equality on features is \<^verbatim>\<open>===\<close>.
  \<^item> A \<^verbatim>\<open>TypeError\<close> raised by reading a property of \<open>undefined\<close> is a value:
    a function that can raise returns \<open>jserror + 'a\<close>, and an operation on the
    application state returns an \<open>outcome\<close> that keeps the state as the exception left it.
  \<^item> The map widget (Leaflet), the DOM and the clock are outside the embedding. The
    bounds constructor \<^verbatim>\<open>L.latLngBounds\<close>, \<^verbatim>\<open>bounds.contains\<close> and
    \<^verbatim>\<open>Number.prototype.toFixed\<close> are parameters of the functions that call them.
    \<^verbatim>\<open>refreshSelectionState\<close> reads the selection and writes only to the widget, the
    DOM and the address bar, so the operations below end where it is called.
\<close>

subsection \<open>Numbers\<close>

datatype jsnum = NegInf | Num rat | PosInf | NaN

fun js_lt :: "jsnum \<Rightarrow> jsnum \<Rightarrow> bool" where
  "js_lt NaN _ = False"
| "js_lt _ NaN = False"
| "js_lt PosInf _ = False"
| "js_lt _ NegInf = False"
| "js_lt NegInf _ = True"
| "js_lt _ PosInf = True"
| "js_lt (Num a) (Num b) = (a < b)"

definition js_le :: "jsnum \<Rightarrow> jsnum \<Rightarrow> bool" where
  "js_le a b = (a \<noteq> NaN \<and> b \<noteq> NaN \<and> (a = b \<or> js_lt a b))"

definition js_gt :: "jsnum \<Rightarrow> jsnum \<Rightarrow> bool" where
  "js_gt a b = js_lt b a"

definition js_ge :: "jsnum \<Rightarrow> jsnum \<Rightarrow> bool" where
  "js_ge a b = js_le b a"

text \<open>\<^verbatim>\<open>Math.min\<close> and \<^verbatim>\<open>Math.max\<close> of two arguments: NaN if either is NaN.\<close>

definition js_min :: "jsnum \<Rightarrow> jsnum \<Rightarrow> jsnum" where
  "js_min a b = (if a = NaN \<or> b = NaN then NaN else if js_lt b a then b else a)"

definition js_max :: "jsnum \<Rightarrow> jsnum \<Rightarrow> jsnum" where
  "js_max a b = (if a = NaN \<or> b = NaN then NaN else if js_lt a b then b else a)"

fun js_neg :: "jsnum \<Rightarrow> jsnum" where
  "js_neg NaN = NaN"
| "js_neg PosInf = NegInf"
| "js_neg NegInf = PosInf"
| "js_neg (Num a) = Num (- a)"

fun js_add :: "jsnum \<Rightarrow> jsnum \<Rightarrow> jsnum" where
  "js_add NaN _ = NaN"
| "js_add _ NaN = NaN"
| "js_add (Num a) (Num b) = Num (a + b)"
| "js_add PosInf NegInf = NaN"
| "js_add NegInf PosInf = NaN"
| "js_add PosInf _ = PosInf"
| "js_add _ PosInf = PosInf"
| "js_add NegInf _ = NegInf"
| "js_add _ NegInf = NegInf"

definition js_sub :: "jsnum \<Rightarrow> jsnum \<Rightarrow> jsnum" where
  "js_sub a b = js_add a (js_neg b)"

fun js_mul :: "jsnum \<Rightarrow> jsnum \<Rightarrow> jsnum" where
  "js_mul NaN _ = NaN"
| "js_mul _ NaN = NaN"
| "js_mul (Num a) (Num b) = Num (a * b)"
| "js_mul x y =
     (if x = Num 0 \<or> y = Num 0 then NaN
      else if js_lt (Num 0) x = js_lt (Num 0) y then PosInf else NegInf)"

fun js_div :: "jsnum \<Rightarrow> jsnum \<Rightarrow> jsnum" where
  "js_div NaN _ = NaN"
| "js_div _ NaN = NaN"
| "js_div (Num a) (Num b) =
     (if b = 0 then (if a = 0 then NaN else if 0 < a then PosInf else NegInf)
      else Num (a / b))"
| "js_div (Num a) _ = Num 0"
| "js_div x (Num b) = (if 0 \<le> b then x else js_neg x)"
| "js_div _ _ = NaN"

text \<open>\<^verbatim>\<open>Number.isFinite\<close>.\<close>

fun isFinite :: "jsnum \<Rightarrow> bool" where
  "isFinite (Num _) = True"
| "isFinite _ = False"

text \<open>\<^verbatim>\<open>a || b\<close> on numbers: \<open>0\<close> and NaN are falsy.\<close>

definition js_or_num :: "jsnum \<Rightarrow> jsnum \<Rightarrow> jsnum" where
  "js_or_num a b = (if a = Num 0 \<or> a = NaN then b else a)"

text \<open>\<^verbatim>\<open>coord[k]\<close> read as a number: past the end it is \<open>undefined\<close>, hence NaN.\<close>

definition num_at :: "jsnum list \<Rightarrow> nat \<Rightarrow> jsnum" where
  "num_at c k = (if k < length c then c ! k else NaN)"

subsection \<open>Strings\<close>

definition upperChar :: "char \<Rightarrow> char" where
  "upperChar c =
     (case map_of (zip ''abcdefghijklmnopqrstuvwxyz'' ''ABCDEFGHIJKLMNOPQRSTUVWXYZ'') c of
        None \<Rightarrow> c | Some u \<Rightarrow> u)"

definition lowerChar :: "char \<Rightarrow> char" where
  "lowerChar c =
     (case map_of (zip ''ABCDEFGHIJKLMNOPQRSTUVWXYZ'' ''abcdefghijklmnopqrstuvwxyz'') c of
        None \<Rightarrow> c | Some u \<Rightarrow> u)"

definition toUpperCase :: "string \<Rightarrow> string" where
  "toUpperCase s = map upperChar s"

definition toLowerCase :: "string \<Rightarrow> string" where
  "toLowerCase s = map lowerChar s"

text \<open>White space and line terminators removed by \<^verbatim>\<open>trim\<close>: TAB, LF, VT, FF, CR, SPACE.\<close>

definition isSpace :: "char \<Rightarrow> bool" where
  "isSpace c = (c \<in> set [CHR 0x09, CHR 0x0A, CHR 0x0B, CHR 0x0C, CHR 0x0D, CHR '' ''])"

definition trim :: "string \<Rightarrow> string" where
  "trim s = rev (dropWhile isSpace (rev (dropWhile isSpace s)))"

text \<open>\<^verbatim>\<open>s.split(c)\<close> for a one-character separator: never the empty array.\<close>

fun split :: "char \<Rightarrow> string \<Rightarrow> string list" where
  "split c [] = [[]]"
| "split c (x # xs) =
     (if x = c then [] # split c xs
      else (case split c xs of [] \<Rightarrow> [[x]] | w # ws \<Rightarrow> (x # w) # ws))"

text \<open>\<^verbatim>\<open>xs.join(sep)\<close>.\<close>

fun join :: "string \<Rightarrow> string list \<Rightarrow> string" where
  "join sep [] = []"
| "join sep [x] = x"
| "join sep (x # y # ys) = x @ sep @ join sep (y # ys)"

text \<open>
  \<^verbatim>\<open>[...new Set(xs)]\<close>: the elements of \<open>xs\<close> in order of first occurrence.
  \<^verbatim>\<open>xs.sort()\<close> without a comparator orders strings by their code units; it is
  \<open>sort\<close> on the lexicographic order of \<open>string\<close>.
\<close>

fun uniqueFrom :: "'a list \<Rightarrow> 'a list \<Rightarrow> 'a list" where
  "uniqueFrom seen [] = []"
| "uniqueFrom seen (x # xs) =
     (if x \<in> set seen then uniqueFrom seen xs else x # uniqueFrom (x # seen) xs)"

definition unique :: "'a list \<Rightarrow> 'a list" where
  "unique xs = uniqueFrom [] xs"

subsection \<open>Features and geometry\<close>

type_synonym position = "jsnum list"
type_synonym ring = "position list"

text \<open>
  A GeoJSON geometry. \<open>OtherGeometry\<close> is any type other than Polygon and MultiPolygon
  (Point, LineString, GeometryCollection, ...).
\<close>

datatype geometry = Polygon "ring list" | MultiPolygon "ring list list" | OtherGeometry

record feature =
  ref :: nat
  properties :: "(string \<times> string) list"
  geometry :: "geometry option"

record latlng =
  lat :: jsnum
  lng :: jsnum

datatype jserror = TypeError

text \<open>\<^verbatim>\<open>obj[key]\<close> of a property object, \<open>None\<close> for \<open>undefined\<close>.\<close>

definition getProp :: "feature \<Rightarrow> string \<Rightarrow> string option" where
  "getProp f k = map_of (properties f) k"

text \<open>\<^verbatim>\<open>a || b\<close> on an optional string and a string: \<open>undefined\<close> and \<open>""\<close> are falsy.\<close>

definition str_or :: "string option \<Rightarrow> string \<Rightarrow> string" where
  "str_or a b = (case a of None \<Rightarrow> b | Some s \<Rightarrow> if s = [] then b else s)"

definition getGridName :: "feature \<Rightarrow> string" where
  "getGridName f =
     str_or (getProp f ''name'')
       (str_or (getProp f ''Name'')
         (str_or (getProp f ''title'')
           (str_or (getProp f ''TITLE'')
             (str_or (getProp f ''id'') ''Grid''))))"

text \<open>The key under which a feature is selected: its upper-cased name.\<close>

definition upperName :: "feature \<Rightarrow> string" where
  "upperName f = toUpperCase (getGridName f)"

subsection \<open>De-duplication by name\<close>

text \<open>
  The body of \<^verbatim>\<open>features.forEach\<close> in \<^verbatim>\<open>dedupeFeaturesByName\<close>; \<open>seenNames\<close> is the
  \<^verbatim>\<open>Set\<close> of upper-cased names met so far.
\<close>

fun dedupeLoop :: "string list \<Rightarrow> feature list \<Rightarrow> feature list" where
  "dedupeLoop seenNames [] = []"
| "dedupeLoop seenNames (f # fs) =
     (let nm = getGridName f in
      if nm = [] then dedupeLoop seenNames fs
      else
        let upper = toUpperCase nm in
        if upper \<in> set seenNames then dedupeLoop seenNames fs
        else f # dedupeLoop (upper # seenNames) fs)"

definition dedupeFeaturesByName :: "feature list \<Rightarrow> feature list" where
  "dedupeFeaturesByName features = (if features = [] then [] else dedupeLoop [] features)"

subsection \<open>Geometry utilities\<close>

text \<open>\<^verbatim>\<open>xs[k]\<close> of an array, \<open>None\<close> for \<open>undefined\<close>.\<close>

definition nth_opt :: "'a list \<Rightarrow> nat \<Rightarrow> 'a option" where
  "nth_opt xs k = (if k < length xs then Some (xs ! k) else None)"

text \<open>A \<^verbatim>\<open>LatLngBounds\<close> of the map widget, read through its four getters.\<close>

record bounds =
  getSouth :: jsnum
  getWest :: jsnum
  getNorth :: jsnum
  getEast :: jsnum

text \<open>
  \<^verbatim>\<open>isPolygonIntersectingBounds\<close>: the bounding box of a ring against a box. The ring
  is \<open>None\<close> when the caller read it from an empty array.
\<close>

definition isPolygonIntersectingBounds :: "ring option \<Rightarrow> bounds \<Rightarrow> bool" where
  "isPolygonIntersectingBounds coords b =
     (case coords of
        None \<Rightarrow> False
      | Some cs \<Rightarrow>
          if cs = [] then False
          else
            let (minLat, maxLat, minLng, maxLng) =
                  fold (\<lambda>coord (minLat, maxLat, minLng, maxLng).
                          let x = num_at coord 0; y = num_at coord 1
                          in (js_min minLat y, js_max maxLat y, js_min minLng x, js_max maxLng x))
                       cs (PosInf, NegInf, PosInf, NegInf);
                mapSouth = getSouth b;
                mapNorth = getNorth b;
                mapWest = getWest b;
                mapEast = getEast b;
                lngIntersects =
                  ((js_ge maxLng mapWest \<and> js_le minLng mapEast) \<or>
                   (js_gt mapWest mapEast \<and> (js_ge maxLng mapWest \<or> js_le minLng mapEast)));
                latIntersects = (js_ge maxLat mapSouth \<and> js_le minLat mapNorth)
            in lngIntersects \<and> latIntersects)"

text \<open>
  \<^verbatim>\<open>getWrappedBounds\<close>. The parameter \<open>latLngBounds\<close> is \<^verbatim>\<open>L.latLngBounds\<close> applied
  to two corners. The \<^verbatim>\<open>for\<close> loop runs over the offsets \<open>-360\<close>, \<open>0\<close>, \<open>360\<close> and
  skips \<open>0\<close>.
\<close>

definition getWrappedBounds :: "(latlng \<Rightarrow> latlng \<Rightarrow> bounds) \<Rightarrow> bounds \<Rightarrow> bounds list" where
  "getWrappedBounds latLngBounds b =
     (let w = getWest b; e = getEast b; n = getNorth b; s = getSouth b;
          halves =
            (if js_gt w e
             then [latLngBounds \<lparr>lat = s, lng = w\<rparr> \<lparr>lat = n, lng = Num 180\<rparr>,
                   latLngBounds \<lparr>lat = s, lng = Num (- 180)\<rparr> \<lparr>lat = n, lng = e\<rparr>]
             else []);
          worldWidth = Num 360;
          copies =
            concat (map (\<lambda>offset.
                      if offset = Num 0 then []
                      else [latLngBounds \<lparr>lat = s, lng = js_add w offset\<rparr>
                                         \<lparr>lat = n, lng = js_add e offset\<rparr>])
                    [js_neg worldWidth, Num 0, worldWidth])
      in [b] @ halves @ copies)"

text \<open>
  The test of \<^verbatim>\<open>getVisibleGrids\<close> of one geometry against one wrapped box, and the
  \<^verbatim>\<open>wrappedBounds.forEach\<close> that keeps the flag \<open>isVisible\<close> once it is set.
\<close>

definition geometryIntersects :: "geometry \<Rightarrow> bounds \<Rightarrow> bool" where
  "geometryIntersects g wrappedBound =
     (case g of
        Polygon cs \<Rightarrow> isPolygonIntersectingBounds (nth_opt cs 0) wrappedBound
      | MultiPolygon ps \<Rightarrow>
          list_ex (\<lambda>polygon. isPolygonIntersectingBounds (nth_opt polygon 0) wrappedBound) ps
      | OtherGeometry \<Rightarrow> False)"

definition isVisibleIn :: "bounds list \<Rightarrow> geometry \<Rightarrow> bool" where
  "isVisibleIn wrappedBounds g =
     fold (\<lambda>wrappedBound isVisible.
             if isVisible then isVisible else geometryIntersects g wrappedBound)
          wrappedBounds False"

definition getVisibleGrids ::
  "(latlng \<Rightarrow> latlng \<Rightarrow> bounds) \<Rightarrow> feature list \<Rightarrow> bounds \<Rightarrow> feature list" where
  "getVisibleGrids latLngBounds features b =
     (let wrappedBounds = getWrappedBounds latLngBounds b
      in filter (\<lambda>f. case geometry f of None \<Rightarrow> False
                                     | Some g \<Rightarrow> isVisibleIn wrappedBounds g) features)"

text \<open>
  \<^verbatim>\<open>getPolygonCentroid\<close>. \<open>ringAverage\<close> is the function from the guard on \<open>coords\<close>
  to the end; the sums start at \<open>0\<close> and the division by the number of valid
  coordinates is a division of numbers, so \<open>0 / 0\<close> is NaN.
\<close>

definition ringAverage :: "ring option \<Rightarrow> latlng option" where
  "ringAverage coords =
     (case coords of
        None \<Rightarrow> None
      | Some cs \<Rightarrow>
          if cs = [] then None
          else
            let validCoords = filter (\<lambda>coord. 2 \<le> length coord) cs;
                (sumLat, sumLng) =
                  fold (\<lambda>coord (sumLat, sumLng).
                          (js_add sumLat (num_at coord 1), js_add sumLng (num_at coord 0)))
                       validCoords (Num 0, Num 0);
                count = Num (of_nat (length validCoords))
            in Some \<lparr>lat = js_div sumLat count, lng = js_div sumLng count\<rparr>)"

definition getPolygonCentroid :: "geometry option \<Rightarrow> jserror + latlng option" where
  "getPolygonCentroid g =
     (case g of
        None \<Rightarrow> Inr None
      | Some (Polygon cs) \<Rightarrow> Inr (ringAverage (nth_opt cs 0))
      | Some (MultiPolygon ps) \<Rightarrow>
          (case nth_opt ps 0 of
             None \<Rightarrow> Inl TypeError
           | Some polygon \<Rightarrow> Inr (ringAverage (nth_opt polygon 0)))
      | Some OtherGeometry \<Rightarrow> Inr None)"

text \<open>
  \<^verbatim>\<open>isPointInLinearRing\<close>. \<open>edgeCrosses\<close> is the value of \<open>intersects\<close> for the
  vertices \<open>ring[i]\<close> and \<open>ring[j]\<close>; the loop carries \<open>j\<close> and \<open>inside\<close>.
\<close>

definition edgeCrosses :: "position \<Rightarrow> position \<Rightarrow> position \<Rightarrow> bool" where
  "edgeCrosses point vi vj =
     (let xi = num_at vi 0; yi = num_at vi 1; xj = num_at vj 0; yj = num_at vj 1
      in (js_gt yi (num_at point 1) \<noteq> js_gt yj (num_at point 1)) \<and>
         js_lt (num_at point 0)
           (js_add
              (js_div (js_mul (js_sub xj xi) (js_sub (num_at point 1) yi))
                      (js_or_num (js_sub yj yi) (Num (1 / 10 ^ 12))))
              xi))"

definition isPointInLinearRing :: "position \<Rightarrow> ring \<Rightarrow> bool" where
  "isPointInLinearRing point r =
     (if r = [] then False
      else snd (fold (\<lambda>i (j, inside).
                        (i, if edgeCrosses point (r ! i) (r ! j) then \<not> inside else inside))
                     [0..<length r] (length r - 1, False)))"

text \<open>The \<^verbatim>\<open>for\<close> loop of \<^verbatim>\<open>isPointInPolygon\<close> over the rings after the first.\<close>

fun notInHoles :: "position \<Rightarrow> ring list \<Rightarrow> bool" where
  "notInHoles point [] = True"
| "notInHoles point (h # hs) =
     (if isPointInLinearRing point h then False else notInHoles point hs)"

definition isPointInPolygon :: "position \<Rightarrow> ring list \<Rightarrow> bool" where
  "isPointInPolygon point polygon =
     (case polygon of
        [] \<Rightarrow> False
      | outerRing # holes \<Rightarrow>
          if \<not> isPointInLinearRing point outerRing then False
          else notInHoles point holes)"

definition isLatLngInFeature :: "latlng \<Rightarrow> feature \<Rightarrow> bool" where
  "isLatLngInFeature ll f =
     (case geometry f of
        None \<Rightarrow> False
      | Some (Polygon cs) \<Rightarrow> isPointInPolygon [lng ll, lat ll] cs
      | Some (MultiPolygon ps) \<Rightarrow> list_ex (isPointInPolygon [lng ll, lat ll]) ps
      | Some OtherGeometry \<Rightarrow> False)"

text \<open>
  \<^verbatim>\<open>findGridCandidatesAtLatLng\<close>; \<open>polygonLayer\<close> is the list of the features of the
  rendered layers, empty when no layer exists.
\<close>

definition findGridCandidatesAtLatLng :: "feature list \<Rightarrow> latlng \<Rightarrow> feature list" where
  "findGridCandidatesAtLatLng polygonLayer ll =
     filter (\<lambda>f. geometry f \<noteq> None \<and> isLatLngInFeature ll f) polygonLayer"

text \<open>
  \<^verbatim>\<open>doesFeatureIntersectBounds\<close> and \<^verbatim>\<open>findFeaturesInBounds\<close>. The parameter
  \<open>contains\<close> is \<^verbatim>\<open>bounds.contains\<close> of the map widget; \<open>gridData\<close> is \<open>None\<close> until
  the dataset is loaded.
\<close>

definition doesFeatureIntersectBounds ::
  "(bounds \<Rightarrow> latlng \<Rightarrow> bool) \<Rightarrow> feature \<Rightarrow> bounds \<Rightarrow> jserror + bool" where
  "doesFeatureIntersectBounds contains f b =
     (case geometry f of
        None \<Rightarrow> Inr False
      | Some g \<Rightarrow>
          if (case g of
                Polygon cs \<Rightarrow>
                  nth_opt cs 0 \<noteq> None \<and> isPolygonIntersectingBounds (nth_opt cs 0) b
              | MultiPolygon ps \<Rightarrow>
                  list_ex (\<lambda>polygon. nth_opt polygon 0 \<noteq> None \<and>
                                      isPolygonIntersectingBounds (nth_opt polygon 0) b) ps
              | OtherGeometry \<Rightarrow> False)
          then Inr True
          else
            (case getPolygonCentroid (Some g) of
               Inl err \<Rightarrow> Inl err
             | Inr None \<Rightarrow> Inr False
             | Inr (Some c) \<Rightarrow> Inr (contains b c)))"

fun matchLoop ::
  "(bounds \<Rightarrow> latlng \<Rightarrow> bool) \<Rightarrow> bounds \<Rightarrow> feature list \<Rightarrow> jserror + feature list" where
  "matchLoop contains b [] = Inr []"
| "matchLoop contains b (f # fs) =
     (if geometry f = None then matchLoop contains b fs
      else
        (case doesFeatureIntersectBounds contains f b of
           Inl err \<Rightarrow> Inl err
         | Inr hit \<Rightarrow>
             (case matchLoop contains b fs of
                Inl err \<Rightarrow> Inl err
              | Inr matches \<Rightarrow> Inr (if hit then f # matches else matches))))"

definition findFeaturesInBounds ::
  "(bounds \<Rightarrow> latlng \<Rightarrow> bool) \<Rightarrow> feature list option \<Rightarrow> bounds \<Rightarrow> jserror + feature list" where
  "findFeaturesInBounds contains gridData b =
     (case gridData of
        None \<Rightarrow> Inr []
      | Some features \<Rightarrow>
          (case matchLoop contains b features of
             Inl err \<Rightarrow> Inl err
           | Inr matches \<Rightarrow> Inr (dedupeFeaturesByName matches)))"

subsection \<open>The selection store\<close>

record entry =
  entryFeature :: feature
  entryName :: string
  entryCentroid :: "latlng option"

text \<open>
  \<^verbatim>\<open>selectedGridMap\<close> is a \<^verbatim>\<open>Map\<close>: it iterates in insertion order, \<^verbatim>\<open>set\<close> on a
  key that is present keeps the key's position, and \<^verbatim>\<open>delete\<close> followed by \<^verbatim>\<open>set\<close>
  moves the key to the end.
\<close>

type_synonym store = "(string \<times> entry) list"

definition mapHas :: "store \<Rightarrow> string \<Rightarrow> bool" where
  "mapHas m k = (k \<in> set (map fst m))"

definition mapSet :: "store \<Rightarrow> string \<Rightarrow> entry \<Rightarrow> store" where
  "mapSet m k v =
     (if mapHas m k then map (\<lambda>(k', v'). if k' = k then (k', v) else (k', v')) m
      else m @ [(k, v)])"

definition mapDelete :: "store \<Rightarrow> string \<Rightarrow> store" where
  "mapDelete m k = filter (\<lambda>(k', v'). k' \<noteq> k) m"

record rectangleState =
  active :: bool
  startLatLng :: "latlng option"
  lastLatLng :: "latlng option"
  hasMoved :: bool
  draggingWasEnabled :: bool

record app =
  selectedGridMap :: store
  suppressNextGridClick :: bool
  rectangleSelectState :: rectangleState

text \<open>
  The result of an event handler: it returned, or an exception left it; either way the
  state stays as the handler wrote it.
\<close>

datatype 'a outcome = Done 'a | Thrown jserror 'a

fun stateOf :: "'a outcome \<Rightarrow> 'a" where
  "stateOf (Done s) = s"
| "stateOf (Thrown err s) = s"

fun completed :: "'a outcome \<Rightarrow> bool" where
  "completed (Done s) = True"
| "completed (Thrown err s) = False"

definition initialApp :: app where
  "initialApp =
     \<lparr>selectedGridMap = [],
      suppressNextGridClick = False,
      rectangleSelectState =
        \<lparr>active = False, startLatLng = None, lastLatLng = None, hasMoved = False,
         draggingWasEnabled = True\<rparr>\<rparr>"

definition getSelectedEntries :: "app \<Rightarrow> entry list" where
  "getSelectedEntries s = map snd (selectedGridMap s)"

text \<open>The body of \<^verbatim>\<open>features.forEach\<close> in \<^verbatim>\<open>updateSelection\<close>.\<close>

fun updateLoop :: "bool \<Rightarrow> feature list \<Rightarrow> store \<Rightarrow> store outcome" where
  "updateLoop replace [] m = Done m"
| "updateLoop replace (f # fs) m =
     (let nm = getGridName f in
      if nm = [] then updateLoop replace fs m
      else
        let upper = toUpperCase nm in
        if \<not> replace \<and> mapHas m upper then updateLoop replace fs m
        else
          (case getPolygonCentroid (geometry f) of
             Inl err \<Rightarrow> Thrown err m
           | Inr c \<Rightarrow>
               updateLoop replace fs
                 (mapSet m upper \<lparr>entryFeature = f, entryName = nm, entryCentroid = c\<rparr>)))"

definition updateSelection :: "feature list \<Rightarrow> bool \<Rightarrow> app \<Rightarrow> app outcome" where
  "updateSelection features replace s =
     (if features = [] then Done s
      else
        map_outcome (\<lambda>m. s\<lparr>selectedGridMap := m\<rparr>)
          (updateLoop replace features (if replace then [] else selectedGridMap s)))"

definition removeGridFromSelection :: "string \<Rightarrow> app \<Rightarrow> app" where
  "removeGridFromSelection gridName s =
     (if gridName = [] then s
      else
        let upper = toUpperCase gridName in
        if \<not> mapHas (selectedGridMap s) upper then s
        else s\<lparr>selectedGridMap := mapDelete (selectedGridMap s) upper\<rparr>)"

definition clearSelection :: "app \<Rightarrow> app" where
  "clearSelection s = (if selectedGridMap s = [] then s else s\<lparr>selectedGridMap := []\<rparr>)"

subsection \<open>Click toggle\<close>

text \<open>
  The three loops of \<^verbatim>\<open>processGridClick\<close>: staging (\<open>namesToRemove\<close>,
  \<open>featuresToAdd\<close>), removal, and addition. The flag \<open>mutated\<close> only decides whether
  the refresh runs and is left out.
\<close>

definition stageToggle ::
  "store \<Rightarrow> feature list \<Rightarrow> string list \<times> (feature \<times> string \<times> string) list" where
  "stageToggle m uniqueCandidates =
     fold (\<lambda>candidate (namesToRemove, featuresToAdd).
             let nm = getGridName candidate in
             if nm = [] then (namesToRemove, featuresToAdd)
             else
               let upper = toUpperCase nm in
               if mapHas m upper then (namesToRemove @ [upper], featuresToAdd)
               else (namesToRemove, featuresToAdd @ [(candidate, nm, upper)]))
          uniqueCandidates ([], [])"

definition removeLoop :: "string list \<Rightarrow> store \<Rightarrow> store" where
  "removeLoop namesToRemove m =
     fold (\<lambda>upper m'. if mapHas m' upper then mapDelete m' upper else m') namesToRemove m"

fun addLoop :: "(feature \<times> string \<times> string) list \<Rightarrow> store \<Rightarrow> store outcome" where
  "addLoop [] m = Done m"
| "addLoop ((f, nm, upper) # rest) m =
     (if mapHas m upper then addLoop rest m
      else
        (case getPolygonCentroid (geometry f) of
           Inl err \<Rightarrow> Thrown err m
         | Inr c \<Rightarrow>
             addLoop rest
               (mapSet m upper \<lparr>entryFeature = f, entryName = nm, entryCentroid = c\<rparr>)))"

text \<open>
  \<^verbatim>\<open>processGridClick(feature, event)\<close>: \<open>feature\<close> is \<open>None\<close> for \<open>null\<close>, \<open>event\<close>
  is the \<open>latlng\<close> of the event or \<open>None\<close>; \<open>polygonLayer\<close> holds the rendered features.
\<close>

definition processGridClick ::
  "feature list \<Rightarrow> feature option \<Rightarrow> latlng option \<Rightarrow> app \<Rightarrow> app outcome" where
  "processGridClick polygonLayer feature event s =
     (case feature of
        None \<Rightarrow> Done s
      | Some f \<Rightarrow>
          if suppressNextGridClick s then Done (s\<lparr>suppressNextGridClick := False\<rparr>)
          else
            let found = (case event of
                           None \<Rightarrow> []
                         | Some ll \<Rightarrow> findGridCandidatesAtLatLng polygonLayer ll);
                candidates = (if f \<in> set found then found else f # found);
                uniqueCandidates = dedupeFeaturesByName candidates
            in
              if uniqueCandidates = [] then Done s
              else
                let (namesToRemove, featuresToAdd) =
                      stageToggle (selectedGridMap s) uniqueCandidates
                in
                  if namesToRemove = [] \<and> featuresToAdd = [] then Done s
                  else
                    map_outcome (\<lambda>m. s\<lparr>selectedGridMap := m\<rparr>)
                      (addLoop featuresToAdd (removeLoop namesToRemove (selectedGridMap s))))"

subsection \<open>Rectangle selection\<close>

definition resetRectangleSelection :: "app \<Rightarrow> app" where
  "resetRectangleSelection s =
     s\<lparr>rectangleSelectState :=
         \<lparr>active = False, startLatLng = None, lastLatLng = None, hasMoved = False,
          draggingWasEnabled = True\<rparr>\<rparr>"

definition scheduleSuppressNextGridClick :: "app \<Rightarrow> app" where
  "scheduleSuppressNextGridClick s = s\<lparr>suppressNextGridClick := True\<rparr>"

text \<open>The \<^verbatim>\<open>reduce\<close> that counts the features a drag would add.\<close>

definition newFeaturesCount :: "bool \<Rightarrow> store \<Rightarrow> feature list \<Rightarrow> nat" where
  "newFeaturesCount replaceSelection m selectedFeatures =
     fold (\<lambda>f count.
             let nm = getGridName f in
             if nm = [] then count
             else count + (if replaceSelection \<or> \<not> mapHas m (toUpperCase nm) then 1 else 0))
          selectedFeatures 0"

definition completeRectangleSelection ::
  "(latlng \<Rightarrow> latlng \<Rightarrow> bounds) \<Rightarrow> (bounds \<Rightarrow> latlng \<Rightarrow> bool) \<Rightarrow> feature list option \<Rightarrow>
   latlng option \<Rightarrow> app \<Rightarrow> app outcome" where
  "completeRectangleSelection latLngBounds contains gridData finalLatLng s =
     (let moved = hasMoved (rectangleSelectState s);
          start = startLatLng (rectangleSelectState s);
          s1 = resetRectangleSelection s;
          s2 = (if moved then scheduleSuppressNextGridClick s1 else s1)
      in
        if \<not> moved then Done s2
        else
          (case start of
             None \<Rightarrow> Done s2
           | Some startCorner \<Rightarrow>
               (case finalLatLng of
                  None \<Rightarrow> Done s2
                | Some finalCorner \<Rightarrow>
                    (case findFeaturesInBounds contains gridData
                            (latLngBounds startCorner finalCorner) of
                       Inl err \<Rightarrow> Thrown err s2
                     | Inr selectedFeatures \<Rightarrow>
                         if selectedFeatures = [] then Done s2
                         else
                           let replaceSelection = (selectedGridMap s2 = []) in
                           if \<not> replaceSelection \<and>
                              newFeaturesCount replaceSelection (selectedGridMap s2)
                                selectedFeatures = 0
                           then Done s2
                           else updateSelection selectedFeatures replaceSelection s2))))"

subsection \<open>Share-state codec\<close>

text \<open>
  The query of the address bar as \<^verbatim>\<open>URLSearchParams\<close> sees it: a list of name-value
  pairs. Serialising a query into the URL and parsing it back is the identity on this
  list (percent-encoding is lossless), so \<^verbatim>\<open>window.location.search\<close> after
  \<^verbatim>\<open>replaceState\<close> is the list that was written.
\<close>

type_synonym query = "(string \<times> string) list"

definition paramsGet :: "query \<Rightarrow> string \<Rightarrow> string option" where
  "paramsGet q k = map_of q k"

definition paramsDelete :: "query \<Rightarrow> string \<Rightarrow> query" where
  "paramsDelete q k = filter (\<lambda>(k', v). k' \<noteq> k) q"

fun paramsSet :: "query \<Rightarrow> string \<Rightarrow> string \<Rightarrow> query" where
  "paramsSet [] k v = [(k, v)]"
| "paramsSet ((k', v') # q) k v =
     (if k' = k then (k, v) # paramsDelete q k else (k', v') # paramsSet q k v)"

text \<open>
  \<^verbatim>\<open>updateAddressBarWithSelection\<close>, as the query it leaves in the address bar.
  \<open>urlParses\<close> is false when \<^verbatim>\<open>new URL(window.location.href)\<close> throws: the
  \<^verbatim>\<open>catch\<close> branch then rebuilds the query from the names alone. The caller
  \<^verbatim>\<open>refreshSelectionState\<close> passes the selected names in the locale's order
  (\<^verbatim>\<open>getSelectedNamesSorted\<close>); the encoder de-duplicates and sorts them again, so
  it is given here for a list of names in any order.
\<close>

definition updateAddressBarWithSelection :: "bool \<Rightarrow> query \<Rightarrow> string list \<Rightarrow> query" where
  "updateAddressBarWithSelection urlParses q gridNames =
     (let upperSorted = sort (unique (map toUpperCase gridNames)) in
      if urlParses then
        (let q1 = paramsDelete (paramsDelete q ''grid'') ''grids'' in
         if length upperSorted = 1 then paramsSet q1 ''grid'' (upperSorted ! 0)
         else if 1 < length upperSorted then paramsSet q1 ''grids'' (join '','' upperSorted)
         else q1)
      else
        (if length upperSorted = 1 then [(''grid'', upperSorted ! 0)]
         else if 1 < length upperSorted then [(''grids'', join '','' upperSorted)]
         else []))"

text \<open>The names pushed for one parameter value: trimmed, empties dropped, upper-cased.\<close>

definition pushTrimmed :: "string list \<Rightarrow> string list" where
  "pushTrimmed parts =
     map (\<lambda>trimmed. toUpperCase trimmed) (filter (\<lambda>trimmed. 0 < length trimmed) (map trim parts))"

definition getGridParamsFromUrl :: "query \<Rightarrow> string list option" where
  "getGridParamsFromUrl q =
     (let gridsParam = paramsGet q ''grids'';
          gridParam = paramsGet q ''grid'';
          names1 = (case gridsParam of
                      None \<Rightarrow> []
                    | Some v \<Rightarrow> if v = [] then [] else pushTrimmed (split CHR '','' v));
          names2 = (case gridParam of
                      None \<Rightarrow> []
                    | Some v \<Rightarrow> if v = [] then [] else pushTrimmed [v]);
          uniqueNames = unique (names1 @ names2)
      in if 0 < length uniqueNames then Some uniqueNames else None)"

subsection \<open>CSV export\<close>

text \<open>
  \<^verbatim>\<open>escapeCsvValue\<close>: a value with a double quote, a comma or a line feed is wrapped
  in double quotes, each inner double quote doubled.
\<close>

definition escapeCsvValue :: "string \<Rightarrow> string" where
  "escapeCsvValue v =
     (if list_ex (\<lambda>c. c = CHR 0x22 \<or> c = CHR '','' \<or> c = CHR 0x0A) v
      then [CHR 0x22] @ concat (map (\<lambda>c. if c = CHR 0x22 then [c, c] else [c]) v) @ [CHR 0x22]
      else v)"

text \<open>
  \<^verbatim>\<open>formatCsvNumber\<close>; \<open>toFixed\<close> is \<^verbatim>\<open>Number.prototype.toFixed\<close> with its digit
  count.
\<close>

definition formatCsvNumber :: "(jsnum \<Rightarrow> nat \<Rightarrow> string) \<Rightarrow> jsnum \<Rightarrow> string" where
  "formatCsvNumber toFixed num = (if num = NaN then [] else toFixed num 6)"

text \<open>\<open>orderedPropertyKeys\<close> of \<^verbatim>\<open>downloadSelectionAsCSV\<close>.\<close>

definition orderedPropertyKeys :: "entry list \<Rightarrow> string list" where
  "orderedPropertyKeys selectionEntries =
     sort (filter (\<lambda>key. toLowerCase key \<noteq> ''name'')
             (unique (concat (map (\<lambda>e. map fst (properties (entryFeature e)))
                                  selectionEntries))))"

text \<open>
  The array \<open>[...baseValues, ...propertyValues]\<close> of one entry, before its values are
  escaped and joined. A centroid that was stored as \<open>null\<close> is computed again.
\<close>

definition csvRowValues ::
  "(jsnum \<Rightarrow> nat \<Rightarrow> string) \<Rightarrow> string list \<Rightarrow> entry \<Rightarrow> jserror + string list" where
  "csvRowValues toFixed keys e =
     (let nm = str_or (Some (entryName e)) (str_or (Some (getGridName (entryFeature e))) [])
      in
        (case (case entryCentroid e of
                 Some c \<Rightarrow> Inr (Some c)
               | None \<Rightarrow> getPolygonCentroid (geometry (entryFeature e))) of
           Inl err \<Rightarrow> Inl err
         | Inr centroid \<Rightarrow>
             let baseValues =
                   (case centroid of
                      None \<Rightarrow> [nm, [], []]
                    | Some c \<Rightarrow>
                        [nm, formatCsvNumber toFixed (lat c), formatCsvNumber toFixed (lng c)]);
                 propertyValues =
                   map (\<lambda>key. case getProp (entryFeature e) key of None \<Rightarrow> [] | Some v \<Rightarrow> v)
                       keys
             in Inr (baseValues @ propertyValues)))"

fun csvRows ::
  "(jsnum \<Rightarrow> nat \<Rightarrow> string) \<Rightarrow> string list \<Rightarrow> entry list \<Rightarrow> jserror + string list list" where
  "csvRows toFixed keys [] = Inr []"
| "csvRows toFixed keys (e # es) =
     (case csvRowValues toFixed keys e of
        Inl err \<Rightarrow> Inl err
      | Inr vals \<Rightarrow>
          (case csvRows toFixed keys es of
             Inl err \<Rightarrow> Inl err
           | Inr rows \<Rightarrow> Inr (vals # rows)))"

definition csvLine :: "string list \<Rightarrow> string" where
  "csvLine vals = join '','' (map escapeCsvValue vals)"

text \<open>
  What \<^verbatim>\<open>downloadSelectionAsCSV\<close> hands over: a feedback message, or the MIME type
  and the content of the download (the file name carries the time of day and is left out).
\<close>

datatype export = Feedback string | Download string string

definition downloadSelectionAsCSV :: "(jsnum \<Rightarrow> nat \<Rightarrow> string) \<Rightarrow> app \<Rightarrow> jserror + export" where
  "downloadSelectionAsCSV toFixed s =
     (let selectionEntries = getSelectedEntries s in
      if selectionEntries = [] then Inr (Feedback ''Select grids to export first'')
      else
        let keys = orderedPropertyKeys selectionEntries;
            headers = [''name'', ''centroid_lat'', ''centroid_lng''] @ keys
        in
          (case csvRows toFixed keys selectionEntries of
             Inl err \<Rightarrow> Inl err
           | Inr rows \<Rightarrow>
               Inr (Download ''text/csv''
                      (join [CHR 0x0A] (csvLine headers # map csvLine rows)))))"

subsection \<open>States the handlers can reach\<close>

text \<open>
  The states reached from the initial one by the handlers that write the selection
  (click, selection update, removal by name, clearing, rectangle commit); the flag
  \<open>suppressNextGridClick\<close> and the rectangle state are also written by timers and pointer
  events, so they may change freely.
\<close>

inductive reachable :: "app \<Rightarrow> bool" where
  reach_init: "reachable initialApp"
| reach_click:
    "reachable s \<Longrightarrow> reachable (stateOf (processGridClick polygonLayer feature event s))"
| reach_update:
    "reachable s \<Longrightarrow> reachable (stateOf (updateSelection features replace s))"
| reach_remove:
    "reachable s \<Longrightarrow> reachable (removeGridFromSelection gridName s)"
| reach_clear:
    "reachable s \<Longrightarrow> reachable (clearSelection s)"
| reach_rectangle:
    "reachable s \<Longrightarrow>
     reachable (stateOf (completeRectangleSelection latLngBounds contains gridData finalLatLng s))"
| reach_pointer:
    "reachable s \<Longrightarrow> reachable (s\<lparr>suppressNextGridClick := flag, rectangleSelectState := r\<rparr>)"

subsection \<open>Example data\<close>

definition tile :: "nat \<Rightarrow> string \<Rightarrow> ring list \<Rightarrow> feature" where
  "tile i nm rings = \<lparr>ref = i, properties = [(''name'', nm)], geometry = Some (Polygon rings)\<rparr>"

definition square :: "rat \<Rightarrow> rat \<Rightarrow> rat \<Rightarrow> rat \<Rightarrow> ring" where
  "square x0 y0 x1 y1 =
     [[Num x0, Num y0], [Num x1, Num y0], [Num x1, Num y1], [Num x0, Num y1], [Num x0, Num y0]]"

definition cornerBounds :: "latlng \<Rightarrow> latlng \<Rightarrow> bounds" where
  "cornerBounds c1 c2 =
     \<lparr>getSouth = js_min (lat c1) (lat c2), getWest = js_min (lng c1) (lng c2),
      getNorth = js_max (lat c1) (lat c2), getEast = js_max (lng c1) (lng c2)\<rparr>"

definition boxContains :: "bounds \<Rightarrow> latlng \<Rightarrow> bool" where
  "boxContains b c =
     (js_ge (lat c) (getSouth b) \<and> js_le (lat c) (getNorth b) \<and>
      js_ge (lng c) (getWest b) \<and> js_le (lng c) (getEast b))"

text \<open>The state after tile \<open>B\<close> and then tile \<open>A\<close> were added to the empty selection.\<close>

definition stateBA :: app where
  "stateBA = stateOf (updateSelection [tile 1 ''B'' [], tile 2 ''A'' []] False initialApp)"

text \<open>
  The de-duplicated candidates that one click of \<^verbatim>\<open>processGridClick\<close> toggles: the
  features under the pointer, with the clicked feature put first when it is not among
  them.
\<close>

definition clickCandidates :: "feature list \<Rightarrow> feature \<Rightarrow> latlng option \<Rightarrow> feature list" where
  "clickCandidates polygonLayer f event =
     dedupeFeaturesByName
       (let found = (case event of
                       None \<Rightarrow> []
                     | Some ll \<Rightarrow> findGridCandidatesAtLatLng polygonLayer ll)
        in if f \<in> set found then found else f # found)"

definition tileA :: feature where
  "tileA = tile 1 ''01ccv'' [square 0 0 10 10]"

definition insideA :: latlng where
  "insideA = \<lparr>lat = Num 5, lng = Num 5\<rparr>"

definition tileB :: feature where
  "tileB = tile 2 ''02abc'' [square 10 0 20 10]"

definition tileC :: feature where
  "tileC = tile 3 ''03xyz'' [square 40 0 50 10]"

text \<open>A state in the middle of a shift-drag that started at \<open>start\<close> and has moved.\<close>

definition dragging :: "latlng \<Rightarrow> app \<Rightarrow> app" where
  "dragging start s =
     s\<lparr>rectangleSelectState :=
         \<lparr>active = True, startLatLng = Some start, lastLatLng = None, hasMoved = True,
          draggingWasEnabled = False\<rparr>\<rparr>"

text \<open>The state after a drag over tiles \<open>A\<close> and \<open>B\<close> from the empty selection.\<close>

definition stateAB :: app where
  "stateAB =
     stateOf (completeRectangleSelection cornerBounds boxContains (Some [tileA, tileB, tileC])
                (Some \<lparr>lat = Num 5, lng = Num 15\<rparr>)
                (dragging \<lparr>lat = Num 1, lng = Num 1\<rparr> initialApp))"

text \<open>A square with a square hole; a tile across longitude 180; a view across it.\<close>

definition tileHole :: "ring list" where
  "tileHole = [square 0 0 10 10, square 4 4 6 6]"

definition tile180 :: feature where
  "tile180 = tile 4 ''01kab'' [square 179 (- 5) 181 5]"

definition view170 :: bounds where
  "view170 = \<lparr>getSouth = Num (- 10), getWest = Num 170, getNorth = Num 10, getEast = Num (- 170)\<rparr>"

text \<open>
  A name that survives the comma-separated list of the \<open>grids\<close> parameter: not empty,
  free of commas, and without white space at either end. \<open>decodedNames\<close> reads the
  \<open>null\<close> of \<^verbatim>\<open>getGridParamsFromUrl\<close> as no names.
\<close>

definition wellFormedName :: "string \<Rightarrow> bool" where
  "wellFormedName n = (n \<noteq> [] \<and> CHR '','' \<notin> set n \<and> trim n = n)"

definition decodedNames :: "string list option \<Rightarrow> string list" where
  "decodedNames r = (case r of None \<Rightarrow> [] | Some ns \<Rightarrow> ns)"

text \<open>
  A tile that overlaps tile \<open>A\<close>; a point inside both tiles and a point inside \<open>A\<close> only.
\<close>

definition tileX :: feature where
  "tileX = tile 5 ''01xyz'' [square 5 5 15 15]"

definition insideAX :: latlng where
  "insideAX = \<lparr>lat = Num 7, lng = Num 7\<rparr>"

definition insideOnlyA :: latlng where
  "insideOnlyA = \<lparr>lat = Num 2, lng = Num 2\<rparr>"

subsection \<open>Bounding boxes in the words of the specification\<close>

text \<open>
  The specification's bounding-box test, written independently of the loop of
  \<^verbatim>\<open>isPolygonIntersectingBounds\<close>: the axis-aligned bounding box of a ring is given by
  the least and the greatest latitude and longitude among its vertices; two closed ranges
  \<open>[a, b]\<close> and \<open>[c, d]\<close> overlap when \<open>a \<le> d\<close> and \<open>c \<le> b\<close>; a view box with
  \<open>west > east\<close> is the two longitude ranges \<open>[west, 180]\<close> and \<open>[-180, east]\<close>.
  \<open>numOf\<close> reads a finite number as a rational. A ring straddles longitude 180 when
  the meridian (written \<open>180\<close> or \<open>-180\<close>) lies between its least and greatest
  longitude. \<open>outerRings\<close> lists ring 0 of the polygon, or of each polygon of a
  MultiPolygon.
\<close>

definition numOf :: "jsnum \<Rightarrow> rat" where
  "numOf a = (case a of Num x \<Rightarrow> x | _ \<Rightarrow> 0)"

definition lngOf :: "position \<Rightarrow> rat" where
  "lngOf p = numOf (num_at p 0)"

definition latOf :: "position \<Rightarrow> rat" where
  "latOf p = numOf (num_at p 1)"

definition finitePosition :: "position \<Rightarrow> bool" where
  "finitePosition p = (isFinite (num_at p 0) \<and> isFinite (num_at p 1))"

definition finiteRing :: "ring \<Rightarrow> bool" where
  "finiteRing r = list_all finitePosition r"

definition finiteBounds :: "bounds \<Rightarrow> bool" where
  "finiteBounds b =
     (isFinite (getSouth b) \<and> isFinite (getWest b) \<and> isFinite (getNorth b) \<and> isFinite (getEast b))"

definition rangesOverlap :: "rat \<Rightarrow> rat \<Rightarrow> rat \<Rightarrow> rat \<Rightarrow> bool" where
  "rangesOverlap a b c d = (a \<le> d \<and> c \<le> b)"

definition specBoundingBoxIntersects :: "ring \<Rightarrow> bounds \<Rightarrow> bool" where
  "specBoundingBoxIntersects r viewBox =
     (let minLat = Min (latOf ` set r); maxLat = Max (latOf ` set r);
          minLng = Min (lngOf ` set r); maxLng = Max (lngOf ` set r);
          s = numOf (getSouth viewBox); n = numOf (getNorth viewBox);
          w = numOf (getWest viewBox); e = numOf (getEast viewBox)
      in rangesOverlap minLat maxLat s n \<and>
         (if e < w
          then rangesOverlap minLng maxLng w 180 \<or> rangesOverlap minLng maxLng (- 180) e
          else rangesOverlap minLng maxLng w e))"

definition outerRings :: "geometry \<Rightarrow> ring list" where
  "outerRings g =
     (case g of
        Polygon cs \<Rightarrow> take 1 cs
      | MultiPolygon ps \<Rightarrow> concat (map (take 1) ps)
      | OtherGeometry \<Rightarrow> [])"

definition straddles180 :: "ring \<Rightarrow> bool" where
  "straddles180 r =
     ((Min (lngOf ` set r) \<le> 180 \<and> 180 \<le> Max (lngOf ` set r)) \<or>
      (Min (lngOf ` set r) \<le> - 180 \<and> - 180 \<le> Max (lngOf ` set r)))"

definition lngsInRange :: "ring \<Rightarrow> bool" where
  "lngsInRange r = list_all (\<lambda>p. - 180 \<le> lngOf p \<and> lngOf p \<le> 180) r"

subsection \<open>Invariant of the selection store\<close>

text \<open>
  The entry that \<^verbatim>\<open>selectedGridMap.set\<close> stores for a feature, and what holds of every
  stored pair: the key is the upper-cased name of the entry, the name is the grid name of
  the entry's feature, and the centroid is the one computed from the feature's geometry.
  A feature is \<open>safe\<close> when computing its centroid raises no exception.
\<close>

definition mkEntry :: "feature \<Rightarrow> latlng option \<Rightarrow> entry" where
  "mkEntry f c = \<lparr>entryFeature = f, entryName = getGridName f, entryCentroid = c\<rparr>"

definition entryOk :: "string \<times> entry \<Rightarrow> bool" where
  "entryOk p =
     (fst p = toUpperCase (entryName (snd p)) \<and>
      entryName (snd p) = getGridName (entryFeature (snd p)) \<and>
      getPolygonCentroid (geometry (entryFeature (snd p))) = Inr (entryCentroid (snd p)))"

definition storeInv :: "store \<Rightarrow> bool" where
  "storeInv m = (distinct (map fst m) \<and> list_all entryOk m)"

definition safe :: "feature \<Rightarrow> bool" where
  "safe f = (geometry f \<noteq> Some (MultiPolygon []))"

definition selectedKeys :: "app \<Rightarrow> string list" where
  "selectedKeys s = map fst (selectedGridMap s)"

section \<open>Properties\<close>

subsection \<open>Strings and lists\<close>

lemma upperChar_idem: "upperChar (upperChar c) = upperChar c"
  by (simp add: upperChar_def)

lemma toUpperCase_idem: "toUpperCase (toUpperCase s) = toUpperCase s"
  by (simp add: toUpperCase_def upperChar_idem)

lemma getGridName_nonempty: "getGridName f \<noteq> []"
  by (simp add: getGridName_def str_or_def split: option.splits)

lemma uniqueFrom_set: "set (uniqueFrom seen xs) = set xs - set seen"
  by (induction xs arbitrary: seen) auto

lemma uniqueFrom_distinct: "distinct (uniqueFrom seen xs)"
  by (induction xs arbitrary: seen) (auto simp: uniqueFrom_set)

lemma uniqueFrom_id: "distinct xs \<Longrightarrow> set xs \<inter> set seen = {} \<Longrightarrow> uniqueFrom seen xs = xs"
  by (induction xs arbitrary: seen) auto

lemma unique_set: "set (unique xs) = set xs"
  by (simp add: unique_def uniqueFrom_set)

lemma unique_distinct: "distinct (unique xs)"
  by (simp add: unique_def uniqueFrom_distinct)

lemma unique_id: "distinct xs \<Longrightarrow> unique xs = xs"
  by (simp add: unique_def uniqueFrom_id)

subsection \<open>De-duplication keeps first occurrences\<close>

lemma dedupeLoop_subseq: "subseq (dedupeLoop seen fs) fs"
  by (induction fs arbitrary: seen) (auto simp: Let_def)

lemma dedupeLoop_keys: "map upperName (dedupeLoop seen fs) = uniqueFrom seen (map upperName fs)"
  by (induction fs arbitrary: seen) (auto simp: Let_def upperName_def getGridName_nonempty)

lemma dedupeLoop_find:
  "k \<notin> set seen \<Longrightarrow>
   find (\<lambda>g. upperName g = k) (dedupeLoop seen fs) = find (\<lambda>g. upperName g = k) fs"
  by (induction fs arbitrary: seen) (auto simp: Let_def upperName_def getGridName_nonempty)

lemma dedupe_eq: "dedupeFeaturesByName fs = dedupeLoop [] fs"
  by (simp add: dedupeFeaturesByName_def)

lemma dedupe_keys: "map upperName (dedupeFeaturesByName fs) = unique (map upperName fs)"
  by (simp add: dedupe_eq dedupeLoop_keys unique_def)

lemma dedupe_distinct: "distinct (map upperName (dedupeFeaturesByName fs))"
  by (simp add: dedupe_keys unique_distinct)

lemma dedupe_subset: "set (dedupeFeaturesByName fs) \<subseteq> set fs"
  using dedupeLoop_subseq[of "[]" fs] by (auto simp: dedupe_eq dest: list_emb_set)

text \<open>
  C10. \<^verbatim>\<open>dedupeFeaturesByName\<close> returns a subsequence of its input (so the relative
  order is kept), no two features of the result have the same upper-cased name, and for
  every name of the input the feature of that name in the result is the first feature of
  that name in the input.
\<close>

theorem dedupeFeaturesByName_first_occurrence:
  "subseq (dedupeFeaturesByName fs) fs \<and>
   distinct (map upperName (dedupeFeaturesByName fs)) \<and>
   (\<forall>f\<in>set fs. find (\<lambda>g. upperName g = upperName f) (dedupeFeaturesByName fs) =
                  find (\<lambda>g. upperName g = upperName f) fs)"
proof (intro conjI ballI)
  show "subseq (dedupeFeaturesByName fs) fs"
    by (simp add: dedupe_eq dedupeLoop_subseq)
  show "distinct (map upperName (dedupeFeaturesByName fs))"
    by (rule dedupe_distinct)
  fix f
  show "find (\<lambda>g. upperName g = upperName f) (dedupeFeaturesByName fs) =
        find (\<lambda>g. upperName g = upperName f) fs"
    by (simp add: dedupe_eq dedupeLoop_find)
qed

theorem dedupeFeaturesByName_first_occurrence_witness:
  "tile 2 ''01CCV'' [] \<in> set [tile 1 ''01ccv'' [], tile 2 ''01CCV'' [], tile 3 ''02abc'' []] \<and>
   find (\<lambda>g. upperName g = upperName (tile 2 ''01CCV'' []))
     (dedupeFeaturesByName [tile 1 ''01ccv'' [], tile 2 ''01CCV'' [], tile 3 ''02abc'' []]) =
   Some (tile 1 ''01ccv'' []) \<and>
   dedupeFeaturesByName [tile 1 ''01ccv'' [], tile 2 ''01CCV'' [], tile 3 ''02abc'' []] =
   [tile 1 ''01ccv'' [], tile 3 ''02abc'' []]"
proof -
  let ?fs = "[tile 1 ''01ccv'' [], tile 2 ''01CCV'' [], tile 3 ''02abc'' []]"
  have mem: "tile 2 ''01CCV'' [] \<in> set ?fs"
    by simp
  have first: "find (\<lambda>g. upperName g = upperName (tile 2 ''01CCV'' [])) ?fs =
               Some (tile 1 ''01ccv'' [])"
    by code_simp
  have res: "dedupeFeaturesByName ?fs = [tile 1 ''01ccv'' [], tile 3 ''02abc'' []]"
    by code_simp
  from dedupeFeaturesByName_first_occurrence[of ?fs] mem
  have "find (\<lambda>g. upperName g = upperName (tile 2 ''01CCV'' [])) (dedupeFeaturesByName ?fs) =
        find (\<lambda>g. upperName g = upperName (tile 2 ''01CCV'' [])) ?fs"
    by blast
  with mem first res show ?thesis
    by simp
qed

subsection \<open>The store as a map\<close>

lemma mapHas_Nil [simp]: "\<not> mapHas [] k"
  by (simp add: mapHas_def)

lemma keys_mapSet:
  "map fst (mapSet m k v) = (if mapHas m k then map fst m else map fst m @ [k])"
  by (auto simp: mapSet_def mapHas_def split: prod.splits)

lemma keys_mapDelete: "map fst (mapDelete m k) = filter (\<lambda>k'. k' \<noteq> k) (map fst m)"
  by (induction m) (auto simp: mapDelete_def)

lemma mapHas_mapSet: "mapHas (mapSet m k v) k' = (k' = k \<or> mapHas m k')"
  by (auto simp: mapHas_def keys_mapSet)

lemma mapHas_mapDelete: "mapHas (mapDelete m k) k' = (k' \<noteq> k \<and> mapHas m k')"
  by (auto simp: mapHas_def keys_mapDelete)

lemma map_update_conv:
  "map (\<lambda>(k', v'). if k' = k then (k', v) else (k', v')) m =
   map (\<lambda>p. if fst p = k then (k, v) else p) m"
  by (rule map_cong) (auto split: prod.splits)

lemma set_mapSet:
  "set (mapSet m k v) = {p \<in> set m. fst p \<noteq> k} \<union> {(k, v)}"
proof (cases "mapHas m k")
  case True
  then obtain q where q: "q \<in> set m" "fst q = k" by (auto simp: mapHas_def)
  have "(\<lambda>p. if fst p = k then (k, v) else p) ` set m = {p \<in> set m. fst p \<noteq> k} \<union> {(k, v)}"
  proof (intro equalityI subsetI)
    fix x assume "x \<in> (\<lambda>p. if fst p = k then (k, v) else p) ` set m"
    then show "x \<in> {p \<in> set m. fst p \<noteq> k} \<union> {(k, v)}" by (auto split: if_splits)
  next
    fix x assume x: "x \<in> {p \<in> set m. fst p \<noteq> k} \<union> {(k, v)}"
    show "x \<in> (\<lambda>p. if fst p = k then (k, v) else p) ` set m"
    proof (cases "x = (k, v)")
      case True
      with q show ?thesis by (intro image_eqI[where x = q]) auto
    next
      case False
      with x show ?thesis by (intro image_eqI[where x = x]) auto
    qed
  qed
  with True show ?thesis by (simp add: mapSet_def map_update_conv)
next
  case False
  then show ?thesis by (auto simp: mapSet_def mapHas_def)
qed

lemma set_mapDelete: "set (mapDelete m k) = {p \<in> set m. fst p \<noteq> k}"
  by (auto simp: mapDelete_def)

lemma storeInv_Nil [simp]: "storeInv []"
  by (simp add: storeInv_def)

lemma storeInv_mapSet: "storeInv m \<Longrightarrow> entryOk (k, v) \<Longrightarrow> storeInv (mapSet m k v)"
  by (auto simp: storeInv_def keys_mapSet list_all_iff set_mapSet mapHas_def)

lemma storeInv_mapDelete: "storeInv m \<Longrightarrow> storeInv (mapDelete m k)"
  by (auto simp: storeInv_def keys_mapDelete list_all_iff set_mapDelete)

lemma stateOf_map_outcome: "stateOf (map_outcome g x) = g (stateOf x)"
  by (cases x) simp_all

lemma completed_map_outcome: "completed (map_outcome g x) = completed x"
  by (cases x) simp_all

subsection \<open>Exceptions of the centroid\<close>

lemma centroid_throws: "(getPolygonCentroid g = Inl err) = (g = Some (MultiPolygon []))"
  by (cases err)
     (auto simp: getPolygonCentroid_def nth_opt_def split: option.splits geometry.splits)

lemma safe_centroid: "safe f \<Longrightarrow> \<exists>c. getPolygonCentroid (geometry f) = Inr c"
  by (cases "getPolygonCentroid (geometry f)") (auto simp: safe_def centroid_throws)

subsection \<open>The handlers keep the invariant\<close>

lemma entryOk_new:
  "getPolygonCentroid (geometry f) = Inr c \<Longrightarrow>
   entryOk (toUpperCase (getGridName f),
            \<lparr>entryFeature = f, entryName = getGridName f, entryCentroid = c\<rparr>)"
  by (simp add: entryOk_def)

lemma updateLoop_inv: "storeInv m \<Longrightarrow> storeInv (stateOf (updateLoop r fs m))"
proof (induction fs arbitrary: m)
  case Nil
  then show ?case by simp
next
  case (Cons f fs)
  show ?case
  proof (cases "getPolygonCentroid (geometry f)")
    case (Inl err)
    with Cons show ?thesis by (auto simp: Let_def)
  next
    case (Inr c)
    with Cons show ?thesis by (auto simp: Let_def storeInv_mapSet entryOk_new)
  qed
qed

lemma updateSelection_inv:
  "storeInv (selectedGridMap s) \<Longrightarrow>
   storeInv (selectedGridMap (stateOf (updateSelection fs r s)))"
  by (simp add: updateSelection_def stateOf_map_outcome updateLoop_inv)

lemma stageToggle_fold:
  "fold (\<lambda>candidate (namesToRemove, featuresToAdd).
             let nm = getGridName candidate in
             if nm = [] then (namesToRemove, featuresToAdd)
             else
               let upper = toUpperCase nm in
               if mapHas m upper then (namesToRemove @ [upper], featuresToAdd)
               else (namesToRemove, featuresToAdd @ [(candidate, nm, upper)]))
        cs (r, a) =
   (r @ map upperName (filter (\<lambda>c. mapHas m (upperName c)) cs),
    a @ map (\<lambda>c. (c, getGridName c, upperName c)) (filter (\<lambda>c. \<not> mapHas m (upperName c)) cs))"
  by (induction cs arbitrary: r a) (simp_all add: Let_def upperName_def getGridName_nonempty)

lemma stageToggle_eq:
  "stageToggle m cs =
   (map upperName (filter (\<lambda>c. mapHas m (upperName c)) cs),
    map (\<lambda>c. (c, getGridName c, upperName c)) (filter (\<lambda>c. \<not> mapHas m (upperName c)) cs))"
  unfolding stageToggle_def by (simp add: stageToggle_fold)

lemma removeLoop_eq: "removeLoop ns m = filter (\<lambda>p. fst p \<notin> set ns) m"
proof -
  have "fold (\<lambda>upper m'. if mapHas m' upper then mapDelete m' upper else m') ns m =
        filter (\<lambda>p. fst p \<notin> set ns) m" for m
  proof (induction ns arbitrary: m)
    case Nil
    then show ?case by simp
  next
    case (Cons n ns)
    have "(if mapHas m n then mapDelete m n else m) = filter (\<lambda>p. fst p \<noteq> n) m"
      by (auto simp: mapHas_def mapDelete_def case_prod_unfold intro!: filter_True[symmetric])
    then show ?case
      by (simp add: Cons conj_commute)
  qed
  then show ?thesis by (simp add: removeLoop_def)
qed

lemma storeInv_filter: "storeInv m \<Longrightarrow> storeInv (filter P m)"
  by (auto simp: storeInv_def list_all_iff distinct_map_filter)

lemma addLoop_inv:
  "storeInv m \<Longrightarrow> storeInv (stateOf (addLoop (map (\<lambda>c. (c, getGridName c, upperName c)) cs) m))"
proof (induction cs arbitrary: m)
  case Nil
  then show ?case by simp
next
  case (Cons f fs)
  show ?case
  proof (cases "getPolygonCentroid (geometry f)")
    case (Inl err)
    with Cons show ?thesis by (auto simp: Let_def)
  next
    case (Inr c)
    with Cons show ?thesis by (auto simp: upperName_def storeInv_mapSet entryOk_new)
  qed
qed

lemma processGridClick_inv:
  "storeInv (selectedGridMap s) \<Longrightarrow>
   storeInv (selectedGridMap (stateOf (processGridClick layer feature event s)))"
  by (auto simp: processGridClick_def Let_def stageToggle_eq removeLoop_eq stateOf_map_outcome
        addLoop_inv storeInv_filter split: option.splits)

lemma removeGridFromSelection_inv:
  "storeInv (selectedGridMap s) \<Longrightarrow> storeInv (selectedGridMap (removeGridFromSelection n s))"
  by (simp add: removeGridFromSelection_def Let_def storeInv_mapDelete)

lemma clearSelection_inv:
  "storeInv (selectedGridMap s) \<Longrightarrow> storeInv (selectedGridMap (clearSelection s))"
  by (simp add: clearSelection_def)

lemma completeRectangleSelection_inv:
  "storeInv (selectedGridMap s) \<Longrightarrow>
   storeInv (selectedGridMap
     (stateOf (completeRectangleSelection latLngBounds contains gridData finalLatLng s)))"
  by (auto simp: completeRectangleSelection_def Let_def resetRectangleSelection_def
        scheduleSuppressNextGridClick_def updateSelection_inv
        split: option.splits sum.splits)

lemma reachable_storeInv: "reachable s \<Longrightarrow> storeInv (selectedGridMap s)"
proof (induction rule: reachable.induct)
  case reach_init
  then show ?case by (simp add: initialApp_def)
next
  case (reach_click s polygonLayer feature event)
  then show ?case by (simp add: processGridClick_inv)
next
  case (reach_update s features replace)
  then show ?case by (simp add: updateSelection_inv)
next
  case (reach_remove s gridName)
  then show ?case by (simp add: removeGridFromSelection_inv)
next
  case (reach_clear s)
  then show ?case by (simp add: clearSelection_inv)
next
  case (reach_rectangle s latLngBounds contains gridData finalLatLng)
  then show ?case by (simp add: completeRectangleSelection_inv)
next
  case (reach_pointer s flag r)
  then show ?case by simp
qed

lemma storeInv_keys_upper: "storeInv m \<Longrightarrow> k \<in> set (map fst m) \<Longrightarrow> toUpperCase k = k"
  by (auto simp: storeInv_def list_all_iff entryOk_def toUpperCase_idem)

text \<open>
  C9. In every state reached from the initial (empty) selection by the handlers that
  write the selection (click toggle, selection update in add or replace mode, removal by
  name, clearing, rectangle commit), every key of the store is its own upper-casing.
\<close>

theorem selection_keys_uppercase:
  "reachable s \<Longrightarrow> \<forall>k\<in>set (selectedKeys s). toUpperCase k = k"
  using reachable_storeInv storeInv_keys_upper unfolding selectedKeys_def by blast

theorem selection_keys_uppercase_witness:
  "reachable (stateOf (updateSelection [tile 1 ''01ccv'' []] False initialApp)) \<and>
   selectedKeys (stateOf (updateSelection [tile 1 ''01ccv'' []] False initialApp)) = [''01CCV''] \<and>
   toUpperCase ''01CCV'' = ''01CCV''"
proof -
  let ?s = "stateOf (updateSelection [tile 1 ''01ccv'' []] False initialApp)"
  have r: "reachable ?s"
    by (rule reach_update[OF reach_init])
  have k: "selectedKeys ?s = [''01CCV'']"
    by code_simp
  from selection_keys_uppercase[OF r] k have "toUpperCase ''01CCV'' = ''01CCV''"
    by simp
  with r k show ?thesis
    by simp
qed

subsection \<open>Replacing the selection\<close>

lemma uniqueFrom_cong: "set seen = set seen' \<Longrightarrow> uniqueFrom seen xs = uniqueFrom seen' xs"
proof (induction xs arbitrary: seen seen')
  case Nil
  show ?case by simp
next
  case (Cons x xs)
  have m: "(x \<in> set seen) = (x \<in> set seen')"
    using Cons.prems by simp
  have "set (x # seen) = set (x # seen')"
    using Cons.prems by simp
  then have "uniqueFrom (x # seen) xs = uniqueFrom (x # seen') xs"
    by (rule Cons.IH)
  moreover have "uniqueFrom seen xs = uniqueFrom seen' xs"
    using Cons.prems by (rule Cons.IH)
  ultimately show ?case
    using m by simp
qed

lemma find_append_case:
  "find P (xs @ ys) = (case find P xs of Some x \<Rightarrow> Some x | None \<Rightarrow> find P ys)"
  by (induction xs) auto

lemma completed_Done: "completed x \<Longrightarrow> x = Done (stateOf x)"
  by (cases x) simp_all

lemma updateLoop_step:
  "getPolygonCentroid (geometry f) = Inr c \<Longrightarrow>
   updateLoop True (f # fs) m = updateLoop True fs (mapSet m (upperName f) (mkEntry f c))"
  by (simp add: Let_def getGridName_nonempty upperName_def mkEntry_def)

lemma updateLoop_replace_completed:
  "\<forall>f\<in>set fs. safe f \<Longrightarrow> completed (updateLoop True fs m)"
proof (induction fs arbitrary: m)
  case Nil
  then show ?case by simp
next
  case (Cons f fs)
  from Cons.prems obtain c where c: "getPolygonCentroid (geometry f) = Inr c"
    using safe_centroid by auto
  from Cons.prems have "\<forall>f\<in>set fs. safe f" by simp
  from Cons.IH[OF this] show ?case
    by (simp only: updateLoop_step[OF c])
qed

lemma updateLoop_replace_keys:
  "\<forall>f\<in>set fs. safe f \<Longrightarrow>
   map fst (stateOf (updateLoop True fs m)) =
   map fst m @ uniqueFrom (map fst m) (map upperName fs)"
proof (induction fs arbitrary: m)
  case Nil
  then show ?case by simp
next
  case (Cons f fs)
  from Cons.prems obtain c where c: "getPolygonCentroid (geometry f) = Inr c"
    using safe_centroid by auto
  let ?m1 = "mapSet m (upperName f) (mkEntry f c)"
  from Cons.prems have "\<forall>f\<in>set fs. safe f" by simp
  from Cons.IH[OF this, of ?m1]
  have k: "map fst (stateOf (updateLoop True fs ?m1)) =
           map fst ?m1 @ uniqueFrom (map fst ?m1) (map upperName fs)" .
  have "map fst (stateOf (updateLoop True fs ?m1)) =
        map fst m @ uniqueFrom (map fst m) (map upperName (f # fs))"
  proof (cases "mapHas m (upperName f)")
    case True
    with k show ?thesis by (simp add: keys_mapSet mapHas_def)
  next
    case False
    have "uniqueFrom (map fst m @ [upperName f]) (map upperName fs) =
          uniqueFrom (upperName f # map fst m) (map upperName fs)"
      by (rule uniqueFrom_cong) auto
    with False k show ?thesis by (simp add: keys_mapSet mapHas_def)
  qed
  then show ?case
    by (simp only: updateLoop_step[OF c])
qed

lemma updateLoop_replace_entries:
  "\<forall>f\<in>set fs. safe f \<Longrightarrow> p \<in> set (stateOf (updateLoop True fs m)) \<Longrightarrow>
   (case find (\<lambda>g. upperName g = fst p) (rev fs) of
      Some g \<Rightarrow> entryFeature (snd p) = g
    | None \<Rightarrow> p \<in> set m)"
proof (induction fs arbitrary: m)
  case Nil
  then show ?case by simp
next
  case (Cons f fs)
  from Cons.prems obtain c where c: "getPolygonCentroid (geometry f) = Inr c"
    using safe_centroid by auto
  let ?m1 = "mapSet m (upperName f) (mkEntry f c)"
  from Cons.prems have sf: "\<forall>f\<in>set fs. safe f" by simp
  from Cons.prems(2) have "p \<in> set (stateOf (updateLoop True fs ?m1))"
    by (simp only: updateLoop_step[OF c])
  from Cons.IH[OF sf this]
  have ih: "case find (\<lambda>g. upperName g = fst p) (rev fs) of
              Some g \<Rightarrow> entryFeature (snd p) = g
            | None \<Rightarrow> p \<in> set ?m1" .
  show ?case
  proof (cases "find (\<lambda>g. upperName g = fst p) (rev fs)")
    case (Some g)
    with ih have "entryFeature (snd p) = g" by simp
    with Some show ?thesis by (simp add: find_append_case)
  next
    case None
    with ih have "p \<in> set ?m1" by simp
    then have q: "(p \<in> set m \<and> fst p \<noteq> upperName f) \<or> p = (upperName f, mkEntry f c)"
      by (auto simp: set_mapSet)
    show ?thesis
    proof (cases "upperName f = fst p")
      case True
      with q have "p = (upperName f, mkEntry f c)" by auto
      then have "entryFeature (snd p) = f" by (simp add: mkEntry_def)
      with None True show ?thesis by (simp add: find_append_case)
    next
      case False
      with q have "p \<in> set m" by auto
      with None False show ?thesis by (simp add: find_append_case)
    qed
  qed
qed

text \<open>
  C1 (as the code has it). \<^verbatim>\<open>updateSelection\<close> with \<open>replace = true\<close> returns at once
  on the empty list and leaves the store as it was. On a non-empty list none of whose
  features is a MultiPolygon without polygons, it leaves exactly one entry per distinct
  upper-cased name of the list, in the order of first occurrence, and each entry holds
  the last feature of the list with that upper-cased name.
\<close>

theorem replaceAll_last_occurrence:
  "(features = [] \<longrightarrow> updateSelection features True s = Done s) \<and>
   (features \<noteq> [] \<and> (\<forall>f\<in>set features. safe f) \<longrightarrow>
      (\<exists>s'. updateSelection features True s = Done s' \<and>
            selectedKeys s' = unique (map upperName features) \<and>
            (\<forall>p\<in>set (selectedGridMap s').
               find (\<lambda>f. upperName f = fst p) (rev features) = Some (entryFeature (snd p)))))"
proof (intro conjI impI)
  assume "features = []"
  then show "updateSelection features True s = Done s"
    by (simp add: updateSelection_def)
next
  assume a: "features \<noteq> [] \<and> (\<forall>f\<in>set features. safe f)"
  then have sf: "\<forall>f\<in>set features. safe f" and ne: "features \<noteq> []" by simp_all
  let ?m = "stateOf (updateLoop True features [])"
  have d: "updateLoop True features [] = Done ?m"
    by (rule completed_Done[OF updateLoop_replace_completed[OF sf]])
  have k: "map fst ?m = unique (map upperName features)"
    by (simp add: updateLoop_replace_keys[OF sf] unique_def)
  have e: "find (\<lambda>f. upperName f = fst p) (rev features) = Some (entryFeature (snd p))"
    if "p \<in> set ?m" for p
  proof -
    from updateLoop_replace_entries[OF sf that]
    have c: "case find (\<lambda>g. upperName g = fst p) (rev features) of
               Some g \<Rightarrow> entryFeature (snd p) = g
             | None \<Rightarrow> p \<in> set []" .
    show ?thesis
    proof (cases "find (\<lambda>f. upperName f = fst p) (rev features)")
      case None
      with c show ?thesis by simp
    next
      case (Some g)
      with c show ?thesis by simp
    qed
  qed
  have u: "updateSelection features True s = Done (s\<lparr>selectedGridMap := ?m\<rparr>)"
    unfolding updateSelection_def using ne by (simp, subst d, simp)
  show "\<exists>s'. updateSelection features True s = Done s' \<and>
            selectedKeys s' = unique (map upperName features) \<and>
            (\<forall>p\<in>set (selectedGridMap s').
               find (\<lambda>f. upperName f = fst p) (rev features) = Some (entryFeature (snd p)))"
  proof (intro exI[where x = "s\<lparr>selectedGridMap := ?m\<rparr>"] conjI ballI)
    show "updateSelection features True s = Done (s\<lparr>selectedGridMap := ?m\<rparr>)" by (rule u)
    show "selectedKeys (s\<lparr>selectedGridMap := ?m\<rparr>) = unique (map upperName features)"
      using k by (simp add: selectedKeys_def)
    fix p assume "p \<in> set (selectedGridMap (s\<lparr>selectedGridMap := ?m\<rparr>))"
    then have "p \<in> set ?m" by simp
    then show "find (\<lambda>f. upperName f = fst p) (rev features) = Some (entryFeature (snd p))"
      by (rule e)
  qed
qed


theorem replaceAll_last_occurrence_witness:
  "[tile 1 ''01ccv'' [], tile 2 ''01CCV'' []] \<noteq> [] \<and>
   safe (tile 1 ''01ccv'' []) \<and> safe (tile 2 ''01CCV'' []) \<and>
   selectedKeys (stateOf (updateSelection [tile 1 ''01ccv'' [], tile 2 ''01CCV'' []] True initialApp))
     = [''01CCV''] \<and>
   map (\<lambda>p. entryFeature (snd p))
     (selectedGridMap
       (stateOf (updateSelection [tile 1 ''01ccv'' [], tile 2 ''01CCV'' []] True initialApp)))
     = [tile 2 ''01CCV'' []]"
proof -
  let ?fs = "[tile 1 ''01ccv'' [], tile 2 ''01CCV'' []]"
  have h: "?fs \<noteq> [] \<and> (\<forall>f\<in>set ?fs. safe f)"
    by (simp add: safe_def tile_def)
  have u: "unique (map upperName ?fs) = [''01CCV'']"
    by code_simp
  from replaceAll_last_occurrence[of ?fs initialApp] h obtain s' where
    d: "updateSelection ?fs True initialApp = Done s'" and
    k: "selectedKeys s' = unique (map upperName ?fs)"
    by blast
  from d k u have keys: "selectedKeys (stateOf (updateSelection ?fs True initialApp)) = [''01CCV'']"
    by simp
  have held: "map (\<lambda>p. entryFeature (snd p))
     (selectedGridMap (stateOf (updateSelection ?fs True initialApp))) = [tile 2 ''01CCV'' []]"
    by code_simp
  from h keys held show ?thesis
    by simp
qed

text \<open>
  The claim as stated fails: of two features named \<open>01ccv\<close> and \<open>01CCV\<close> the one entry
  holds the second feature, not the first; the empty list does not empty a selection; and
  a MultiPolygon without polygons raises \<^verbatim>\<open>TypeError\<close> before anything is stored.
\<close>

theorem replaceAll_first_occurrence_counterexample:
  "map (\<lambda>p. entryFeature (snd p))
     (selectedGridMap
       (stateOf (updateSelection [tile 1 ''01ccv'' [], tile 2 ''01CCV'' []] True initialApp)))
     = [tile 2 ''01CCV'' []] \<and>
   tile 2 ''01CCV'' [] \<noteq> tile 1 ''01ccv'' [] \<and>
   selectedKeys (stateOf (updateSelection [] True stateBA)) = [''B'', ''A''] \<and>
   updateSelection [\<lparr>ref = 3, properties = [(''name'', ''01CCV'')],
                     geometry = Some (MultiPolygon [])\<rparr>] True initialApp
     = Thrown TypeError initialApp"
  by code_simp

subsection \<open>Click toggle\<close>

lemma keyset_mapSet: "fst ` set (mapSet m k v) = insert k (fst ` set m)"
proof -
  have "set (map fst (mapSet m k v)) = insert k (set (map fst m))"
    by (auto simp: keys_mapSet mapHas_def)
  then show ?thesis by simp
qed

lemma addLoop_step:
  "getPolygonCentroid (geometry f) = Inr c \<Longrightarrow>
   addLoop ((f, getGridName f, upperName f) # rest) m =
   (if mapHas m (upperName f) then addLoop rest m
    else addLoop rest (mapSet m (upperName f) (mkEntry f c)))"
  by (simp add: mkEntry_def)

lemma addLoop_completed:
  "\<forall>c\<in>set cs. safe c \<Longrightarrow>
   completed (addLoop (map (\<lambda>c. (c, getGridName c, upperName c)) cs) m)"
proof (induction cs arbitrary: m)
  case Nil
  then show ?case by simp
next
  case (Cons f fs)
  from Cons.prems obtain c where c: "getPolygonCentroid (geometry f) = Inr c"
    using safe_centroid by auto
  from Cons.prems have sf: "\<forall>c\<in>set fs. safe c" by simp
  show ?case
    using Cons.IH[OF sf] by (simp add: addLoop_step[OF c] del: addLoop.simps)
qed

lemma addLoop_keys:
  "\<forall>c\<in>set cs. safe c \<Longrightarrow>
   set (map fst (stateOf (addLoop (map (\<lambda>c. (c, getGridName c, upperName c)) cs) m))) =
   set (map fst m) \<union> upperName ` set cs"
proof (induction cs arbitrary: m)
  case Nil
  then show ?case by simp
next
  case (Cons f fs)
  from Cons.prems obtain c where c: "getPolygonCentroid (geometry f) = Inr c"
    using safe_centroid by auto
  from Cons.prems have sf: "\<forall>c\<in>set fs. safe c" by simp
  show ?case
    using Cons.IH[OF sf]
    by (auto simp add: addLoop_step[OF c] keyset_mapSet mapHas_def simp del: addLoop.simps)
qed

lemma dedupe_names: "upperName ` set (dedupeFeaturesByName fs) = upperName ` set fs"
proof -
  have "set (map upperName (dedupeFeaturesByName fs)) = set (map upperName fs)"
    by (simp only: dedupe_keys unique_set)
  then show ?thesis by simp
qed

lemma keys_filter_notin:
  "set (map fst (filter (\<lambda>p. fst p \<notin> N) m)) = set (map fst m) - N"
  by auto

lemma processGridClick_toggle:
  fixes event :: "latlng option"
  assumes ns: "\<not> suppressNextGridClick s" and sf: "\<forall>c\<in>set (f # polygonLayer). safe c"
  defines "N \<equiv> upperName ` set (clickCandidates polygonLayer f event)"
  shows "completed (processGridClick polygonLayer (Some f) event s)"
    and "set (selectedKeys (stateOf (processGridClick polygonLayer (Some f) event s))) =
         (set (selectedKeys s) - N) \<union> (N - set (selectedKeys s))"
    and "\<not> suppressNextGridClick (stateOf (processGridClick polygonLayer (Some f) event s))"
proof -
  let ?U = "clickCandidates polygonLayer f event"
  let ?m = "selectedGridMap s"
  let ?rm = "map upperName (filter (\<lambda>c. mapHas ?m (upperName c)) ?U)"
  let ?addc = "filter (\<lambda>c. \<not> mapHas ?m (upperName c)) ?U"
  let ?add = "map (\<lambda>c. (c, getGridName c, upperName c)) ?addc"
  let ?res = "addLoop ?add (removeLoop ?rm ?m)"
  have "set (case event of None \<Rightarrow> [] | Some ll \<Rightarrow> findGridCandidatesAtLatLng polygonLayer ll)
          \<subseteq> set polygonLayer"
    by (cases event) (auto simp: findGridCandidatesAtLatLng_def)
  then have "set (let found = (case event of
                                 None \<Rightarrow> []
                               | Some ll \<Rightarrow> findGridCandidatesAtLatLng polygonLayer ll)
                  in if f \<in> set found then found else f # found) \<subseteq> set (f # polygonLayer)"
    by (auto simp: Let_def)
  with dedupe_subset have sub: "set ?U \<subseteq> set (f # polygonLayer)"
    unfolding clickCandidates_def by blast
  with sf have sU: "\<forall>c\<in>set ?addc. safe c" by auto
  have eq: "processGridClick polygonLayer (Some f) event s =
            (if ?U = [] then Done s
             else if ?rm = [] \<and> ?add = [] then Done s
             else map_outcome (\<lambda>m. s\<lparr>selectedGridMap := m\<rparr>) ?res)"
    using ns by (simp add: processGridClick_def clickCandidates_def Let_def stageToggle_eq)
  have noop: "?U = [] \<or> (?rm = [] \<and> ?add = []) \<Longrightarrow> N = {}"
  proof -
    assume "?U = [] \<or> (?rm = [] \<and> ?add = [])"
    then have "?U = []"
      by (auto simp: filter_empty_conv)
    then show "N = {}" by (simp add: N_def)
  qed
  have comp: "completed ?res" by (rule addLoop_completed[OF sU])
  have rmset: "set ?rm = N \<inter> set (map fst ?m)"
    by (auto simp: N_def mapHas_def)
  have addset: "upperName ` set ?addc = N - set (map fst ?m)"
    by (auto simp: N_def mapHas_def)
  have keys: "set (map fst (stateOf ?res)) = (set (map fst ?m) - N) \<union> (N - set (map fst ?m))"
  proof -
    have "set (map fst (stateOf ?res)) =
          set (map fst (removeLoop ?rm ?m)) \<union> upperName ` set ?addc"
      by (rule addLoop_keys[OF sU])
    also have "set (map fst (removeLoop ?rm ?m)) = set (map fst ?m) - set ?rm"
      by (simp only: removeLoop_eq keys_filter_notin)
    finally have "set (map fst (stateOf ?res)) =
                  (set (map fst ?m) - (N \<inter> set (map fst ?m))) \<union> (N - set (map fst ?m))"
      by (simp only: rmset addset)
    then show ?thesis
      by blast
  qed
  show "completed (processGridClick polygonLayer (Some f) event s)"
    using comp by (simp add: eq completed_map_outcome)
  show "set (selectedKeys (stateOf (processGridClick polygonLayer (Some f) event s))) =
         (set (selectedKeys s) - N) \<union> (N - set (selectedKeys s))"
  proof (cases "?U = [] \<or> (?rm = [] \<and> ?add = [])")
    case True
    from noop[OF True] have "N = {}" .
    moreover from True have "processGridClick polygonLayer (Some f) event s = Done s"
      by (auto simp: eq)
    ultimately show ?thesis by simp
  next
    case False
    then have "processGridClick polygonLayer (Some f) event s =
               map_outcome (\<lambda>m. s\<lparr>selectedGridMap := m\<rparr>) ?res"
      by (auto simp: eq)
    then show ?thesis
      using keys by (simp add: stateOf_map_outcome selectedKeys_def)
  qed
  show "\<not> suppressNextGridClick (stateOf (processGridClick polygonLayer (Some f) event s))"
    using ns by (simp add: eq stateOf_map_outcome)
qed

lemma clicked_name_toggled: "upperName f \<in> upperName ` set (clickCandidates polygonLayer f event)"
  unfolding clickCandidates_def dedupe_names by (auto simp: Let_def)

text \<open>
  C5 (as the code has it). A click toggles every candidate under the pointer: the
  de-duplicated features of the rendered layer that contain the point, together with the
  clicked feature. For two clicks that are not suppressed, none of whose features is a
  MultiPolygon without polygons, and whose candidates have the same set of upper-cased
  names, both clicks return, the first adds each candidate name that was absent and
  removes each that was present, and the second returns the store to the key set it had
  before the first.
\<close>

theorem toggle_same_names_restores_keys:
  assumes ns: "\<not> suppressNextGridClick s"
      and sf1: "\<forall>c\<in>set (f1 # layer1). safe c"
      and sf2: "\<forall>c\<in>set (f2 # layer2). safe c"
      and same: "upperName ` set (clickCandidates layer1 f1 event1) =
                 upperName ` set (clickCandidates layer2 f2 event2)"
  shows "\<exists>s1 s2. processGridClick layer1 (Some f1) event1 s = Done s1 \<and>
                 processGridClick layer2 (Some f2) event2 s1 = Done s2 \<and>
                 set (selectedKeys s1) =
                   (set (selectedKeys s) - upperName ` set (clickCandidates layer1 f1 event1)) \<union>
                   (upperName ` set (clickCandidates layer1 f1 event1) - set (selectedKeys s)) \<and>
                 set (selectedKeys s2) = set (selectedKeys s)"
proof -
  let ?N = "upperName ` set (clickCandidates layer1 f1 event1)"
  let ?o1 = "processGridClick layer1 (Some f1) event1 s"
  let ?s1 = "stateOf ?o1"
  let ?o2 = "processGridClick layer2 (Some f2) event2 ?s1"
  let ?s2 = "stateOf ?o2"
  note t1 = processGridClick_toggle[OF ns sf1, of event1]
  note t2 = processGridClick_toggle[OF t1(3) sf2, of event2]
  have d1: "?o1 = Done ?s1" by (rule completed_Done[OF t1(1)])
  have d2: "?o2 = Done ?s2" by (rule completed_Done[OF t2(1)])
  have k1: "set (selectedKeys ?s1) = (set (selectedKeys s) - ?N) \<union> (?N - set (selectedKeys s))"
    by (rule t1(2))
  have k2: "set (selectedKeys ?s2) = (set (selectedKeys ?s1) - ?N) \<union> (?N - set (selectedKeys ?s1))"
    using t2(2) by (simp only: same)
  have restored: "set (selectedKeys ?s2) = set (selectedKeys s)"
    unfolding k2 k1 by blast
  show ?thesis
    by (intro exI[where x = ?s1] exI[where x = ?s2] conjI d1 d2 k1 restored)
qed

theorem toggle_same_names_restores_keys_witness:
  "\<not> suppressNextGridClick initialApp \<and> safe tileA \<and> safe tileX \<and>
   upperName ` set (clickCandidates [tileA, tileX] tileA (Some insideAX)) =
   upperName ` set (clickCandidates [tileX, tileA] tileX (Some insideAX)) \<and>
   selectedKeys (stateOf (processGridClick [tileA, tileX] (Some tileA) (Some insideAX) initialApp)) =
     [''01CCV'', ''01XYZ''] \<and>
   selectedKeys
     (stateOf (processGridClick [tileX, tileA] (Some tileX) (Some insideAX)
        (stateOf (processGridClick [tileA, tileX] (Some tileA) (Some insideAX) initialApp)))) = []"
proof -
  have h1: "\<not> suppressNextGridClick initialApp"
    by (simp add: initialApp_def)
  have sA: "safe tileA" and sX: "safe tileX"
    by (simp_all add: safe_def tileA_def tileX_def tile_def)
  then have h2: "\<forall>c\<in>set (tileA # [tileA, tileX]). safe c"
    and h3: "\<forall>c\<in>set (tileX # [tileX, tileA]). safe c"
    by simp_all
  have h4: "upperName ` set (clickCandidates [tileA, tileX] tileA (Some insideAX)) =
            upperName ` set (clickCandidates [tileX, tileA] tileX (Some insideAX))"
    by code_simp
  have first: "selectedKeys
      (stateOf (processGridClick [tileA, tileX] (Some tileA) (Some insideAX) initialApp)) =
     [''01CCV'', ''01XYZ'']"
    by code_simp
  from toggle_same_names_restores_keys[OF h1 h2 h3 h4] obtain s1 s2 where
    d1: "processGridClick [tileA, tileX] (Some tileA) (Some insideAX) initialApp = Done s1" and
    d2: "processGridClick [tileX, tileA] (Some tileX) (Some insideAX) s1 = Done s2" and
    k: "set (selectedKeys s2) = set (selectedKeys initialApp)"
    by blast
  from k have "selectedKeys s2 = []"
    by (simp add: selectedKeys_def initialApp_def)
  with d1 d2 have "selectedKeys
     (stateOf (processGridClick [tileX, tileA] (Some tileX) (Some insideAX)
        (stateOf (processGridClick [tileA, tileX] (Some tileA) (Some insideAX) initialApp)))) = []"
    by simp
  with h1 sA sX h4 first show ?thesis
    by simp
qed

text \<open>
  The claim as stated fails. Where two tiles overlap, a click on tile \<open>A\<close> at a point
  inside both tiles selects both, and a second click on tile \<open>A\<close> at a point inside
  \<open>A\<close> only removes \<open>A\<close> and leaves the other tile selected. And when the flag
  \<open>suppressNextGridClick\<close> is set, the first of two clicks only clears the flag, so
  the second leaves the name selected.
\<close>

theorem toggle_twice_counterexample:
  "selectedKeys initialApp = [] \<and>
   \<not> suppressNextGridClick initialApp \<and>
   completed (processGridClick [tileA, tileX] (Some tileA) (Some insideAX) initialApp) \<and>
   completed
     (processGridClick [tileA, tileX] (Some tileA) (Some insideOnlyA)
        (stateOf (processGridClick [tileA, tileX] (Some tileA) (Some insideAX) initialApp))) \<and>
   selectedKeys
     (stateOf (processGridClick [tileA, tileX] (Some tileA) (Some insideOnlyA)
        (stateOf (processGridClick [tileA, tileX] (Some tileA) (Some insideAX) initialApp)))) =
     [''01XYZ''] \<and>
   selectedKeys
     (stateOf (processGridClick [tileA] (Some tileA) (Some insideA)
        (stateOf (processGridClick [tileA] (Some tileA) (Some insideA)
           (initialApp\<lparr>suppressNextGridClick := True\<rparr>))))) = [''01CCV'']"
  by code_simp

subsection \<open>Rectangle commit\<close>

lemma updateLoop_add_step:
  "getPolygonCentroid (geometry f) = Inr c \<Longrightarrow>
   updateLoop False (f # fs) m =
   (if mapHas m (upperName f) then updateLoop False fs m
    else updateLoop False fs (mapSet m (upperName f) (mkEntry f c)))"
  by (simp add: Let_def getGridName_nonempty upperName_def mkEntry_def)

lemma updateLoop_add_completed:
  "\<forall>f\<in>set fs. safe f \<Longrightarrow> completed (updateLoop False fs m)"
proof (induction fs arbitrary: m)
  case Nil
  then show ?case by simp
next
  case (Cons f fs)
  from Cons.prems obtain c where c: "getPolygonCentroid (geometry f) = Inr c"
    using safe_centroid by auto
  from Cons.prems have sf: "\<forall>f\<in>set fs. safe f" by simp
  show ?case
    using Cons.IH[OF sf] by (simp add: updateLoop_add_step[OF c] del: updateLoop.simps)
qed

lemma updateLoop_add_keys:
  "\<forall>f\<in>set fs. safe f \<Longrightarrow>
   fst ` set (stateOf (updateLoop False fs m)) = fst ` set m \<union> upperName ` set fs"
proof (induction fs arbitrary: m)
  case Nil
  then show ?case by simp
next
  case (Cons f fs)
  from Cons.prems obtain c where c: "getPolygonCentroid (geometry f) = Inr c"
    using safe_centroid by auto
  from Cons.prems have sf: "\<forall>f\<in>set fs. safe f" by simp
  show ?case
    using Cons.IH[OF sf]
    by (auto simp add: updateLoop_add_step[OF c] keyset_mapSet mapHas_def
             simp del: updateLoop.simps)
qed

lemma updateLoop_add_keeps:
  "\<forall>f\<in>set fs. safe f \<Longrightarrow> set m \<subseteq> set (stateOf (updateLoop False fs m))"
proof (induction fs arbitrary: m)
  case Nil
  then show ?case by simp
next
  case (Cons f fs)
  from Cons.prems obtain c where c: "getPolygonCentroid (geometry f) = Inr c"
    using safe_centroid by auto
  from Cons.prems have sf: "\<forall>f\<in>set fs. safe f" by simp
  show ?case
  proof (cases "mapHas m (upperName f)")
    case True
    then show ?thesis
      using Cons.IH[OF sf, of m] by (simp add: updateLoop_add_step[OF c] del: updateLoop.simps)
  next
    case False
    then have "set m \<subseteq> set (mapSet m (upperName f) (mkEntry f c))"
      by (auto simp: mapSet_def)
    with False show ?thesis
      using Cons.IH[OF sf, of "mapSet m (upperName f) (mkEntry f c)"]
      by (simp add: updateLoop_add_step[OF c] del: updateLoop.simps)
  qed
qed

lemma find_unique:
  assumes "x \<in> set xs" and "P x" and "\<And>y. y \<in> set xs \<Longrightarrow> P y \<Longrightarrow> y = x"
  shows "find P xs = Some x"
  using assms
proof (induction xs)
  case Nil
  then show ?case by simp
next
  case (Cons a xs)
  show ?case
  proof (cases "P a")
    case True
    have "a = x" by (rule Cons.prems(3)) (simp_all add: True)
    with True show ?thesis by simp
  next
    case False
    with Cons.prems(1,2) have "x \<in> set xs" by auto
    then have "find P xs = Some x"
      by (rule Cons.IH) (simp_all add: Cons.prems)
    with False show ?thesis by simp
  qed
qed

lemma replace_entries_in_order:
  assumes sf: "\<forall>f\<in>set fs. safe f" and dist: "distinct (map upperName fs)"
  shows "map (\<lambda>p. entryFeature (snd p)) (stateOf (updateLoop True fs [])) = fs"
    and "map fst (stateOf (updateLoop True fs [])) = map upperName fs"
proof -
  let ?m = "stateOf (updateLoop True fs [])"
  have "map fst ?m = unique (map upperName fs)"
    by (simp add: updateLoop_replace_keys[OF sf] unique_def)
  with dist show k: "map fst ?m = map upperName fs"
    by (simp add: unique_id)
  then have "length (map fst ?m) = length (map upperName fs)"
    by (rule arg_cong)
  then have len: "length ?m = length fs"
    by simp
  from dist have inj: "inj_on upperName (set fs)"
    by (simp add: distinct_map)
  show "map (\<lambda>p. entryFeature (snd p)) ?m = fs"
  proof (rule nth_equalityI)
    show "length (map (\<lambda>p. entryFeature (snd p)) ?m) = length fs"
      using len by simp
  next
    fix i assume "i < length (map (\<lambda>p. entryFeature (snd p)) ?m)"
    then have i: "i < length fs" "i < length ?m" using len by simp_all
    have "fst (?m ! i) = map fst ?m ! i"
      using i by simp
    also have "\<dots> = map upperName fs ! i"
      by (simp only: k)
    also have "\<dots> = upperName (fs ! i)"
      using i by simp
    finally have key: "fst (?m ! i) = upperName (fs ! i)" .
    have mem: "?m ! i \<in> set ?m" using i by simp
    from updateLoop_replace_entries[OF sf mem]
    have c: "case find (\<lambda>g. upperName g = fst (?m ! i)) (rev fs) of
               Some g \<Rightarrow> entryFeature (snd (?m ! i)) = g
             | None \<Rightarrow> ?m ! i \<in> set []" .
    have "find (\<lambda>g. upperName g = upperName (fs ! i)) (rev fs) = Some (fs ! i)"
    proof (rule find_unique)
      show "fs ! i \<in> set (rev fs)" using i by simp
      show "upperName (fs ! i) = upperName (fs ! i)" by simp
      fix y assume y: "y \<in> set (rev fs)" "upperName y = upperName (fs ! i)"
      from y(1) have "y \<in> set fs" by simp
      moreover from i have "fs ! i \<in> set fs" by simp
      ultimately show "y = fs ! i"
        using inj y(2) by (simp add: inj_on_def)
    qed
    with c key have "entryFeature (snd (?m ! i)) = fs ! i" by simp
    with i show "map (\<lambda>p. entryFeature (snd p)) ?m ! i = fs ! i" by simp
  qed
qed

lemma doesFeatureIntersectBounds_safe:
  "doesFeatureIntersectBounds contains f b = Inr hit \<Longrightarrow> geometry f \<noteq> None \<Longrightarrow> safe f"
  by (auto simp: doesFeatureIntersectBounds_def safe_def getPolygonCentroid_def nth_opt_def
           split: option.splits)

lemma matchLoop_safe: "matchLoop contains b fs = Inr ms \<Longrightarrow> \<forall>f\<in>set ms. safe f"
proof (induction fs arbitrary: ms)
  case Nil
  then show ?case by simp
next
  case (Cons f fs)
  show ?case
  proof (cases "geometry f = None")
    case True
    with Cons show ?thesis by simp
  next
    case False
    with Cons.prems obtain hit ms' where
      h: "doesFeatureIntersectBounds contains f b = Inr hit" and
      r: "matchLoop contains b fs = Inr ms'" and
      e: "ms = (if hit then f # ms' else ms')"
      by (auto split: sum.splits)
    from doesFeatureIntersectBounds_safe[OF h False] Cons.IH[OF r] e show ?thesis
      by auto
  qed
qed

lemma findFeaturesInBounds_safe:
  "findFeaturesInBounds contains gridData b = Inr matched \<Longrightarrow> \<forall>f\<in>set matched. safe f"
  using matchLoop_safe dedupe_subset
  by (fastforce simp: findFeaturesInBounds_def split: option.splits sum.splits)

lemma findFeaturesInBounds_distinct:
  "findFeaturesInBounds contains gridData b = Inr matched \<Longrightarrow> distinct (map upperName matched)"
  using dedupe_distinct
  by (auto simp: findFeaturesInBounds_def split: option.splits sum.splits)

lemma newFeaturesCount_eq:
  "newFeaturesCount r m fs = length (filter (\<lambda>f. r \<or> \<not> mapHas m (upperName f)) fs)"
proof -
  have "fold (\<lambda>f count.
             let nm = getGridName f in
             if nm = [] then count
             else count + (if r \<or> \<not> mapHas m (toUpperCase nm) then 1 else 0)) fs n =
        n + length (filter (\<lambda>f. r \<or> \<not> mapHas m (upperName f)) fs)" for n :: nat
    by (induction fs arbitrary: n) (simp_all add: Let_def getGridName_nonempty upperName_def)
  then show ?thesis by (simp add: newFeaturesCount_def)
qed

lemma map_outcome_Done: "completed x \<Longrightarrow> map_outcome g x = Done (g (stateOf x))"
  by (cases x) simp_all

lemma completeRectangleSelection_matched:
  assumes mv: "hasMoved (rectangleSelectState s)"
      and st: "startLatLng (rectangleSelectState s) = Some a"
      and fd: "findFeaturesInBounds contains gridData (latLngBounds a c) = Inr matched"
      and ne: "matched \<noteq> []"
  shows "completeRectangleSelection latLngBounds contains gridData (Some c) s =
         (let s2 = scheduleSuppressNextGridClick (resetRectangleSelection s) in
          if selectedGridMap s \<noteq> [] \<and>
             newFeaturesCount False (selectedGridMap s) matched = 0
          then Done s2
          else updateSelection matched (selectedGridMap s = []) s2)"
  using assms
  by (auto simp: completeRectangleSelection_def Let_def resetRectangleSelection_def
        scheduleSuppressNextGridClick_def)

text \<open>
  C4. A rectangle commit of a drag that has moved, whose rectangle matches the non-empty
  list \<open>matched\<close>, returns. If the selection was empty, the selection is exactly
  \<open>matched\<close>, in its order; if it was not, the keys of the selection are the old keys
  together with the upper-cased names of \<open>matched\<close>. In both cases every pair that was
  in the store is still in it.
\<close>

theorem rectangle_commit_replaces_or_adds:
  assumes mv: "hasMoved (rectangleSelectState s)"
      and st: "startLatLng (rectangleSelectState s) = Some a"
      and fd: "findFeaturesInBounds contains gridData (latLngBounds a c) = Inr matched"
      and ne: "matched \<noteq> []"
  shows "\<exists>s'. completeRectangleSelection latLngBounds contains gridData (Some c) s = Done s' \<and>
     (selectedGridMap s = [] \<longrightarrow>
        map (\<lambda>p. entryFeature (snd p)) (selectedGridMap s') = matched \<and>
        selectedKeys s' = map upperName matched) \<and>
     (selectedGridMap s \<noteq> [] \<longrightarrow>
        set (selectedKeys s') = set (selectedKeys s) \<union> upperName ` set matched) \<and>
     set (selectedGridMap s) \<subseteq> set (selectedGridMap s')"
proof -
  let ?s2 = "scheduleSuppressNextGridClick (resetRectangleSelection s)"
  let ?m = "selectedGridMap s"
  have m2: "selectedGridMap ?s2 = ?m"
    by (simp add: scheduleSuppressNextGridClick_def resetRectangleSelection_def)
  have sf: "\<forall>f\<in>set matched. safe f"
    by (rule findFeaturesInBounds_safe[OF fd])
  have dist: "distinct (map upperName matched)"
    by (rule findFeaturesInBounds_distinct[OF fd])
  note eq = completeRectangleSelection_matched[where latLngBounds = latLngBounds and c = c, OF mv st fd ne]
  show ?thesis
  proof (cases "?m = []")
    case True
    let ?r = "stateOf (updateLoop True matched [])"
    have "completed (updateLoop True matched [])"
      by (rule updateLoop_replace_completed[OF sf])
    then have u: "updateSelection matched True ?s2 = Done (?s2\<lparr>selectedGridMap := ?r\<rparr>)"
      using ne by (simp add: updateSelection_def map_outcome_Done)
    have d: "completeRectangleSelection latLngBounds contains gridData (Some c) s =
             Done (?s2\<lparr>selectedGridMap := ?r\<rparr>)"
      using True u by (simp add: eq Let_def)
    show ?thesis
    proof (intro exI[where x = "?s2\<lparr>selectedGridMap := ?r\<rparr>"] conjI impI)
      show "completeRectangleSelection latLngBounds contains gridData (Some c) s =
            Done (?s2\<lparr>selectedGridMap := ?r\<rparr>)" by (rule d)
      show "map (\<lambda>p. entryFeature (snd p)) (selectedGridMap (?s2\<lparr>selectedGridMap := ?r\<rparr>)) = matched"
        using replace_entries_in_order(1)[OF sf dist] by simp
      show "selectedKeys (?s2\<lparr>selectedGridMap := ?r\<rparr>) = map upperName matched"
        using replace_entries_in_order(2)[OF sf dist] by (simp add: selectedKeys_def)
      assume "selectedGridMap s \<noteq> []"
      with True show "set (selectedKeys (?s2\<lparr>selectedGridMap := ?r\<rparr>)) =
                      set (selectedKeys s) \<union> upperName ` set matched"
        by simp
    next
      show "set (selectedGridMap s) \<subseteq> set (selectedGridMap (?s2\<lparr>selectedGridMap := ?r\<rparr>))"
        using True by simp
    qed
  next
    case False
    show ?thesis
    proof (cases "newFeaturesCount False ?m matched = 0")
      case True
      then have all: "\<forall>f\<in>set matched. mapHas ?m (upperName f)"
        by (simp add: newFeaturesCount_eq filter_empty_conv)
      have d: "completeRectangleSelection latLngBounds contains gridData (Some c) s = Done ?s2"
        using False True by (simp add: eq Let_def)
      have "upperName ` set matched \<subseteq> set (selectedKeys s)"
        using all by (auto simp: mapHas_def selectedKeys_def)
      then have k: "set (selectedKeys ?s2) = set (selectedKeys s) \<union> upperName ` set matched"
        using m2 by (auto simp: selectedKeys_def)
      show ?thesis
      proof (intro exI[where x = ?s2] conjI impI)
        show "completeRectangleSelection latLngBounds contains gridData (Some c) s = Done ?s2"
          by (rule d)
        show "set (selectedKeys ?s2) = set (selectedKeys s) \<union> upperName ` set matched"
          by (rule k)
        show "set (selectedGridMap s) \<subseteq> set (selectedGridMap ?s2)"
          using m2 by simp
      next
        assume "selectedGridMap s = []"
        with False show "map (\<lambda>p. entryFeature (snd p)) (selectedGridMap ?s2) = matched" by simp
      next
        assume "selectedGridMap s = []"
        with False show "selectedKeys ?s2 = map upperName matched" by simp
      qed
    next
      case nz: False
      let ?r = "stateOf (updateLoop False matched ?m)"
      have "completed (updateLoop False matched ?m)"
        by (rule updateLoop_add_completed[OF sf])
      then have u: "updateSelection matched False ?s2 = Done (?s2\<lparr>selectedGridMap := ?r\<rparr>)"
        using ne False m2 by (simp add: updateSelection_def map_outcome_Done)
      have d: "completeRectangleSelection latLngBounds contains gridData (Some c) s =
               Done (?s2\<lparr>selectedGridMap := ?r\<rparr>)"
        using False nz u by (simp add: eq Let_def)
      show ?thesis
      proof (intro exI[where x = "?s2\<lparr>selectedGridMap := ?r\<rparr>"] conjI impI)
        show "completeRectangleSelection latLngBounds contains gridData (Some c) s =
              Done (?s2\<lparr>selectedGridMap := ?r\<rparr>)" by (rule d)
        show "set (selectedKeys (?s2\<lparr>selectedGridMap := ?r\<rparr>)) =
              set (selectedKeys s) \<union> upperName ` set matched"
          using updateLoop_add_keys[OF sf, of ?m] by (simp add: selectedKeys_def)
        show "set (selectedGridMap s) \<subseteq> set (selectedGridMap (?s2\<lparr>selectedGridMap := ?r\<rparr>))"
          using updateLoop_add_keeps[OF sf, of ?m] by simp
      next
        assume "selectedGridMap s = []"
        with False show "map (\<lambda>p. entryFeature (snd p))
                           (selectedGridMap (?s2\<lparr>selectedGridMap := ?r\<rparr>)) = matched" by simp
      next
        assume "selectedGridMap s = []"
        with False show "selectedKeys (?s2\<lparr>selectedGridMap := ?r\<rparr>) = map upperName matched"
          by simp
      qed
    qed
  qed
qed

theorem rectangle_commit_replaces_or_adds_witness:
  "selectedGridMap initialApp = [] \<and>
   map (\<lambda>p. entryFeature (snd p)) (selectedGridMap stateAB) = [tileA, tileB] \<and>
   selectedGridMap stateAB \<noteq> [] \<and>
   set (selectedKeys
     (stateOf (completeRectangleSelection cornerBounds boxContains (Some [tileA, tileB, tileC])
                (Some \<lparr>lat = Num 5, lng = Num 45\<rparr>)
                (dragging \<lparr>lat = Num 1, lng = Num 41\<rparr> stateAB)))) =
   {''01CCV'', ''02ABC'', ''03XYZ''}"
proof -
  let ?grid = "Some [tileA, tileB, tileC]"
  let ?s = "dragging \<lparr>lat = Num 1, lng = Num 1\<rparr> initialApp"
  let ?t = "dragging \<lparr>lat = Num 1, lng = Num 41\<rparr> stateAB"
  have e: "selectedGridMap initialApp = []"
    by (simp add: initialApp_def)
  have s_mv: "hasMoved (rectangleSelectState ?s)"
   and s_st: "startLatLng (rectangleSelectState ?s) = Some \<lparr>lat = Num 1, lng = Num 1\<rparr>"
   and s_e: "selectedGridMap ?s = []"
    by (simp_all add: dragging_def initialApp_def)
  have s_fd: "findFeaturesInBounds boxContains ?grid
                (cornerBounds \<lparr>lat = Num 1, lng = Num 1\<rparr> \<lparr>lat = Num 5, lng = Num 15\<rparr>) =
              Inr [tileA, tileB]"
    by code_simp
  from rectangle_commit_replaces_or_adds[where latLngBounds = cornerBounds and c = "\<lparr>lat = Num 5, lng = Num 15\<rparr>", OF s_mv s_st s_fd] s_e obtain s' where
    d: "completeRectangleSelection cornerBounds boxContains ?grid
          (Some \<lparr>lat = Num 5, lng = Num 15\<rparr>) ?s = Done s'" and
    r: "map (\<lambda>p. entryFeature (snd p)) (selectedGridMap s') = [tileA, tileB]"
    by auto
  from d r have ab: "map (\<lambda>p. entryFeature (snd p)) (selectedGridMap stateAB) = [tileA, tileB]"
    by (simp add: stateAB_def)
  then have nonempty: "selectedGridMap stateAB \<noteq> []"
    by auto
  have keysAB: "set (selectedKeys stateAB) = {''01CCV'', ''02ABC''}"
    by code_simp
  have t_mv: "hasMoved (rectangleSelectState ?t)"
   and t_st: "startLatLng (rectangleSelectState ?t) = Some \<lparr>lat = Num 1, lng = Num 41\<rparr>"
   and t_m: "selectedGridMap ?t = selectedGridMap stateAB"
    by (simp_all add: dragging_def)
  have t_fd: "findFeaturesInBounds boxContains ?grid
                (cornerBounds \<lparr>lat = Num 1, lng = Num 41\<rparr> \<lparr>lat = Num 5, lng = Num 45\<rparr>) =
              Inr [tileC]"
    by code_simp
  have nameC: "upperName ` set [tileC] = {''03XYZ''}"
    by code_simp
  from rectangle_commit_replaces_or_adds[where latLngBounds = cornerBounds and c = "\<lparr>lat = Num 5, lng = Num 45\<rparr>", OF t_mv t_st t_fd] nonempty t_m obtain t' where
    d2: "completeRectangleSelection cornerBounds boxContains ?grid
          (Some \<lparr>lat = Num 5, lng = Num 45\<rparr>) ?t = Done t'" and
    r2: "set (selectedKeys t') = set (selectedKeys ?t) \<union> upperName ` set [tileC]"
    by auto
  have "selectedKeys ?t = selectedKeys stateAB"
    using t_m by (simp add: selectedKeys_def)
  with d2 r2 keysAB nameC have "set (selectedKeys
     (stateOf (completeRectangleSelection cornerBounds boxContains ?grid
                (Some \<lparr>lat = Num 5, lng = Num 45\<rparr>) ?t))) = {''01CCV'', ''02ABC'', ''03XYZ''}"
    by auto
  with e ab nonempty show ?thesis
    by simp
qed

subsection \<open>Point in polygon\<close>

lemma notInHoles_iff: "notInHoles point hs = (\<forall>h\<in>set hs. \<not> isPointInLinearRing point h)"
  by (induction hs) auto

text \<open>
  C7. \<^verbatim>\<open>isPointInPolygon\<close> returns true only if the polygon has a first ring and the
  point is inside it, and returns false whenever the point is inside a ring after the
  first, whatever the first ring says.
\<close>

theorem isPointInPolygon_outer_and_holes:
  "(isPointInPolygon point polygon \<longrightarrow>
      (\<exists>outerRing holes. polygon = outerRing # holes \<and> isPointInLinearRing point outerRing)) \<and>
   (\<forall>i. 0 < i \<and> i < length polygon \<and> isPointInLinearRing point (polygon ! i) \<longrightarrow>
        \<not> isPointInPolygon point polygon)"
proof (cases polygon)
  case Nil
  then show ?thesis by (simp add: isPointInPolygon_def)
next
  case (Cons outerRing holes)
  have "\<not> isPointInPolygon point polygon"
    if i: "0 < i" "i < length polygon" "isPointInLinearRing point (polygon ! i)" for i
  proof -
    from i Cons obtain j where j: "i = Suc j" "j < length holes"
      by (cases i) auto
    with i Cons have "isPointInLinearRing point (holes ! j)" by simp
    moreover from j have "holes ! j \<in> set holes" by simp
    ultimately have "\<not> notInHoles point holes"
      by (auto simp: notInHoles_iff)
    with Cons show ?thesis by (simp add: isPointInPolygon_def)
  qed
  moreover have "isPointInPolygon point polygon \<Longrightarrow> isPointInLinearRing point outerRing"
    using Cons by (simp add: isPointInPolygon_def split: if_splits)
  ultimately show ?thesis
    using Cons by blast
qed

theorem isPointInPolygon_outer_and_holes_witness:
  "isPointInLinearRing [Num 5, Num 5] (square 0 0 10 10) \<and>
   isPointInLinearRing [Num 5, Num 5] (tileHole ! 1) \<and>
   \<not> isPointInPolygon [Num 5, Num 5] tileHole \<and>
   isPointInPolygon [Num 2, Num 5] tileHole \<and>
   isPointInLinearRing [Num 2, Num 5] (square 0 0 10 10)"
proof -
  have outer: "isPointInLinearRing [Num 5, Num 5] (square 0 0 10 10)"
    by code_simp
  have hole: "(0::nat) < 1 \<and> 1 < length tileHole \<and> isPointInLinearRing [Num 5, Num 5] (tileHole ! 1)"
    by code_simp
  from isPointInPolygon_outer_and_holes[of "[Num 5, Num 5]" tileHole] hole
  have out: "\<not> isPointInPolygon [Num 5, Num 5] tileHole"
    by blast
  have inside: "isPointInPolygon [Num 2, Num 5] tileHole"
    by code_simp
  from isPointInPolygon_outer_and_holes[of "[Num 2, Num 5]" tileHole] inside
  obtain outerRing holes where
    "tileHole = outerRing # holes" "isPointInLinearRing [Num 2, Num 5] outerRing"
    by blast
  then have "isPointInLinearRing [Num 2, Num 5] (square 0 0 10 10)"
    by (simp add: tileHole_def)
  with outer hole out inside show ?thesis
    by simp
qed

subsection \<open>Wrapped bounds and visibility\<close>

lemma isVisibleIn_fold:
  "fold (\<lambda>wrappedBound isVisible.
           if isVisible then isVisible else geometryIntersects g wrappedBound) wbs acc =
   (acc \<or> (\<exists>wb\<in>set wbs. geometryIntersects g wb))"
  by (induction wbs arbitrary: acc) auto

lemma isVisibleIn_iff: "isVisibleIn wbs g = (\<exists>wb\<in>set wbs. geometryIntersects g wb)"
  by (simp add: isVisibleIn_def isVisibleIn_fold)

lemma getWrappedBounds_crossing:
  "js_gt (getWest b) (getEast b) \<Longrightarrow>
   getWrappedBounds latLngBounds b =
     [b,
      latLngBounds \<lparr>lat = getSouth b, lng = getWest b\<rparr> \<lparr>lat = getNorth b, lng = Num 180\<rparr>,
      latLngBounds \<lparr>lat = getSouth b, lng = Num (- 180)\<rparr> \<lparr>lat = getNorth b, lng = getEast b\<rparr>,
      latLngBounds \<lparr>lat = getSouth b, lng = js_add (getWest b) (Num (- 360))\<rparr>
                   \<lparr>lat = getNorth b, lng = js_add (getEast b) (Num (- 360))\<rparr>,
      latLngBounds \<lparr>lat = getSouth b, lng = js_add (getWest b) (Num 360)\<rparr>
                   \<lparr>lat = getNorth b, lng = js_add (getEast b) (Num 360)\<rparr>]"
  by (simp add: getWrappedBounds_def Let_def)

lemma js_min_Num: "js_min (Num a) (Num b) = Num (min a b)"
  by (auto simp: js_min_def min_def)

lemma js_max_Num: "js_max (Num a) (Num b) = Num (max a b)"
  by (auto simp: js_max_def max_def)

lemma js_min_fold:
  "fold (\<lambda>p a. js_min a (Num (f p))) ps (Num m) = Num (Min (insert m (f ` set ps)))"
proof (induction ps arbitrary: m)
  case Nil
  then show ?case by simp
next
  case (Cons p ps)
  have "Min (insert (min m (f p)) (f ` set ps)) = Min (insert m (insert (f p) (f ` set ps)))"
  proof (cases "ps = []")
    case True
    then show ?thesis by simp
  next
    case False
    then have "f ` set ps \<noteq> {}" "finite (f ` set ps)" by simp_all
    then show ?thesis by (simp add: min.assoc)
  qed
  then show ?case
    by (simp add: Cons js_min_Num)
qed

lemma js_max_fold:
  "fold (\<lambda>p a. js_max a (Num (f p))) ps (Num m) = Num (Max (insert m (f ` set ps)))"
proof (induction ps arbitrary: m)
  case Nil
  then show ?case by simp
next
  case (Cons p ps)
  have "Max (insert (max m (f p)) (f ` set ps)) = Max (insert m (insert (f p) (f ` set ps)))"
  proof (cases "ps = []")
    case True
    then show ?thesis by simp
  next
    case False
    then have "f ` set ps \<noteq> {}" "finite (f ` set ps)" by simp_all
    then show ?thesis by (simp add: max.assoc)
  qed
  then show ?case
    by (simp add: Cons js_max_Num)
qed

lemma finite_lng: "finitePosition p \<Longrightarrow> num_at p 0 = Num (lngOf p)"
  by (cases "num_at p 0") (simp_all add: finitePosition_def lngOf_def numOf_def)

lemma finite_lat: "finitePosition p \<Longrightarrow> num_at p 1 = Num (latOf p)"
  by (cases "num_at p 1") (simp_all add: finitePosition_def latOf_def numOf_def del: One_nat_def)

text \<open>The four accumulators of the bounding-box loop, taken apart.\<close>

lemma bbox_fold_split:
  "fold (\<lambda>coord (minLat, maxLat, minLng, maxLng).
            let x = num_at coord 0; y = num_at coord 1
            in (js_min minLat y, js_max maxLat y, js_min minLng x, js_max maxLng x))
        r (a, b, c, d) =
   (fold (\<lambda>p a. js_min a (num_at p 1)) r a, fold (\<lambda>p a. js_max a (num_at p 1)) r b,
    fold (\<lambda>p a. js_min a (num_at p 0)) r c, fold (\<lambda>p a. js_max a (num_at p 0)) r d)"
  by (induction r arbitrary: a b c d) (simp_all add: Let_def)

lemma fold_finite_cong:
  "list_all finitePosition r \<Longrightarrow>
   fold (\<lambda>p a. g a (num_at p 1)) r a = fold (\<lambda>p a. g a (Num (latOf p))) r a \<and>
   fold (\<lambda>p a. g a (num_at p 0)) r a = fold (\<lambda>p a. g a (Num (lngOf p))) r a"
  by (induction r arbitrary: a) (simp_all add: finite_lng finite_lat del: One_nat_def)

lemma js_min_PosInf: "js_min PosInf (Num a) = Num a"
  by (simp add: js_min_def)

lemma js_max_NegInf: "js_max NegInf (Num a) = Num a"
  by (simp add: js_max_def)

lemma bbox_of_finite_ring:
  assumes "r \<noteq> []" and "finiteRing r"
  shows "fold (\<lambda>coord (minLat, maxLat, minLng, maxLng).
            let x = num_at coord 0; y = num_at coord 1
            in (js_min minLat y, js_max maxLat y, js_min minLng x, js_max maxLng x))
        r (PosInf, NegInf, PosInf, NegInf) =
   (Num (Min (latOf ` set r)), Num (Max (latOf ` set r)),
    Num (Min (lngOf ` set r)), Num (Max (lngOf ` set r)))"
proof -
  from assms obtain p ps where r: "r = p # ps" by (cases r) auto
  from assms(2) have fin: "list_all finitePosition r" by (simp add: finiteRing_def)
  note c = fold_finite_cong[OF fin]
  have s1: "fold (\<lambda>p a. js_min a (Num (latOf p))) r PosInf = Num (Min (latOf ` set r))"
    by (simp add: r js_min_PosInf js_min_fold)
  have s2: "fold (\<lambda>p a. js_max a (Num (latOf p))) r NegInf = Num (Max (latOf ` set r))"
    by (simp add: r js_max_NegInf js_max_fold)
  have s3: "fold (\<lambda>p a. js_min a (Num (lngOf p))) r PosInf = Num (Min (lngOf ` set r))"
    by (simp add: r js_min_PosInf js_min_fold)
  have s4: "fold (\<lambda>p a. js_max a (Num (lngOf p))) r NegInf = Num (Max (lngOf ` set r))"
    by (simp add: r js_max_NegInf js_max_fold)
  show ?thesis
    unfolding bbox_fold_split
    using c[of js_min PosInf] c[of js_max NegInf] s1 s2 s3 s4 by simp
qed

lemma cmp_finite:
  "isFinite a \<Longrightarrow> js_ge (Num x) a = (numOf a \<le> x)"
  "isFinite a \<Longrightarrow> js_le (Num x) a = (x \<le> numOf a)"
  "isFinite a \<Longrightarrow> isFinite c \<Longrightarrow> js_gt a c = (numOf c < numOf a)"
  by (cases a; cases c; auto simp: js_ge_def js_le_def js_gt_def numOf_def)+

text \<open>What the code's test says of a finite ring and a finite box, in rational terms.\<close>

lemma isPolygonIntersectingBounds_finite:
  assumes ne: "r \<noteq> []" and fr: "finiteRing r" and fb: "finiteBounds b"
  shows "isPolygonIntersectingBounds (Some r) b =
         ((numOf (getSouth b) \<le> Max (latOf ` set r) \<and> Min (latOf ` set r) \<le> numOf (getNorth b)) \<and>
          ((numOf (getWest b) \<le> Max (lngOf ` set r) \<and> Min (lngOf ` set r) \<le> numOf (getEast b)) \<or>
           (numOf (getEast b) < numOf (getWest b) \<and>
            (numOf (getWest b) \<le> Max (lngOf ` set r) \<or> Min (lngOf ` set r) \<le> numOf (getEast b)))))"
proof -
  from fb have f: "isFinite (getSouth b)" "isFinite (getWest b)" "isFinite (getNorth b)"
    "isFinite (getEast b)"
    by (simp_all add: finiteBounds_def)
  show ?thesis
    unfolding isPolygonIntersectingBounds_def
    using ne f bbox_of_finite_ring[OF ne fr] by (auto simp: Let_def cmp_finite)
qed

lemma lngsInRange_bounds:
  assumes "r \<noteq> []" and "lngsInRange r"
  shows "Min (lngOf ` set r) \<le> 180" and "- 180 \<le> Max (lngOf ` set r)"
proof -
  from assms(1) obtain p where p: "p \<in> set r" by (cases r) auto
  with assms(2) have "- 180 \<le> lngOf p" "lngOf p \<le> 180"
    by (simp_all add: lngsInRange_def list_all_iff)
  moreover from p have "Min (lngOf ` set r) \<le> lngOf p" "lngOf p \<le> Max (lngOf ` set r)"
    by simp_all
  ultimately show "Min (lngOf ` set r) \<le> 180" and "- 180 \<le> Max (lngOf ` set r)"
    by linarith+
qed

lemma spec_imp_code:
  assumes "r \<noteq> []" and "finiteRing r" and "finiteBounds b"
      and "specBoundingBoxIntersects r b"
  shows "isPolygonIntersectingBounds (Some r) b"
  using assms(4) unfolding isPolygonIntersectingBounds_finite[OF assms(1-3)]
  by (auto simp: specBoundingBoxIntersects_def rangesOverlap_def Let_def split: if_splits)

lemma code_imp_spec:
  assumes "r \<noteq> []" and "finiteRing r" and "finiteBounds b" and "lngsInRange r"
      and "isPolygonIntersectingBounds (Some r) b"
  shows "specBoundingBoxIntersects r b"
  using assms(5) lngsInRange_bounds[OF assms(1,4)]
  unfolding isPolygonIntersectingBounds_finite[OF assms(1-3)]
  by (auto simp: specBoundingBoxIntersects_def rangesOverlap_def Let_def)

lemma isPolygonIntersectingBounds_None: "\<not> isPolygonIntersectingBounds None b"
  by (simp add: isPolygonIntersectingBounds_def)

lemma isPolygonIntersectingBounds_Nil: "\<not> isPolygonIntersectingBounds (Some []) b"
  by (simp add: isPolygonIntersectingBounds_def)

lemma first_ring_iff:
  "isPolygonIntersectingBounds (nth_opt cs 0) b =
   (\<exists>ring\<in>set (take 1 cs). isPolygonIntersectingBounds (Some ring) b)"
  by (cases cs) (simp_all add: nth_opt_def isPolygonIntersectingBounds_None)

lemma geometryIntersects_outerRings:
  "geometryIntersects g wb =
   (\<exists>ring\<in>set (outerRings g). isPolygonIntersectingBounds (Some ring) wb)"
proof (cases g)
  case (Polygon cs)
  then show ?thesis
    by (simp add: geometryIntersects_def outerRings_def first_ring_iff)
next
  case (MultiPolygon ps)
  have "list_ex (\<lambda>polygon. isPolygonIntersectingBounds (nth_opt polygon 0) wb) ps =
        (\<exists>ring\<in>set (concat (map (take 1) ps)). isPolygonIntersectingBounds (Some ring) wb)"
    by (induction ps) (auto simp: first_ring_iff)
  with MultiPolygon show ?thesis
    by (simp add: geometryIntersects_def outerRings_def)
next
  case OtherGeometry
  then show ?thesis
    by (simp add: geometryIntersects_def outerRings_def)
qed

lemma visible_iff:
  "(f \<in> set (getVisibleGrids latLngBounds features b)) =
   (f \<in> set features \<and>
    (\<exists>g. geometry f = Some g \<and>
         (\<exists>wb\<in>set (getWrappedBounds latLngBounds b). geometryIntersects g wb)))"
  by (cases "geometry f") (simp_all add: getVisibleGrids_def Let_def isVisibleIn_iff)

lemma view_in_wrapped: "b \<in> set (getWrappedBounds latLngBounds b)"
  by (simp add: getWrappedBounds_def Let_def)

lemma visible_if_spec:
  assumes "f \<in> set features" and "geometry f = Some g"
      and "ring \<in> set (outerRings g)" and "ring \<noteq> []" and "finiteRing ring"
      and "wb \<in> set (getWrappedBounds latLngBounds b)" and "finiteBounds wb"
      and "specBoundingBoxIntersects ring wb"
  shows "f \<in> set (getVisibleGrids latLngBounds features b)"
proof -
  have "isPolygonIntersectingBounds (Some ring) wb"
    by (rule spec_imp_code[OF assms(4,5,7,8)])
  with assms(3) have "geometryIntersects g wb"
    unfolding geometryIntersects_outerRings by blast
  with assms(1,2,6) show ?thesis
    unfolding visible_iff by blast
qed

lemma spec_if_visible:
  assumes "f \<in> set (getVisibleGrids latLngBounds features b)" and "geometry f = Some g"
      and "\<forall>ring\<in>set (outerRings g). finiteRing ring \<and> lngsInRange ring"
      and "\<forall>wb\<in>set (getWrappedBounds latLngBounds b). finiteBounds wb"
  shows "\<exists>ring\<in>set (outerRings g). ring \<noteq> [] \<and>
           (\<exists>wb\<in>set (getWrappedBounds latLngBounds b). specBoundingBoxIntersects ring wb)"
proof -
  from assms(1,2) obtain wb where
    wb: "wb \<in> set (getWrappedBounds latLngBounds b)" and "geometryIntersects g wb"
    unfolding visible_iff by auto
  then obtain ring where
    ring: "ring \<in> set (outerRings g)" and hit: "isPolygonIntersectingBounds (Some ring) wb"
    unfolding geometryIntersects_outerRings by blast
  from hit have ne: "ring \<noteq> []"
    using isPolygonIntersectingBounds_Nil by auto
  from assms(3) ring have "finiteRing ring" "lngsInRange ring" by auto
  moreover from assms(4) wb have "finiteBounds wb" by auto
  ultimately have "specBoundingBoxIntersects ring wb"
    using ne hit by (intro code_imp_spec)
  with ring ne wb show ?thesis by blast
qed

lemma straddling_visible:
  assumes cross: "js_gt (getWest b) (getEast b)"
      and "f \<in> set features" and "geometry f = Some g"
      and "ring \<in> set (outerRings g)" and ne: "ring \<noteq> []" and "finiteRing ring"
      and st: "straddles180 ring" and fb: "finiteBounds b"
      and w: "numOf (getWest b) \<le> 180" and e: "- 180 \<le> numOf (getEast b)"
      and lat: "rangesOverlap (Min (latOf ` set ring)) (Max (latOf ` set ring))
                  (numOf (getSouth b)) (numOf (getNorth b))"
  shows "f \<in> set (getVisibleGrids latLngBounds features b)"
proof -
  from fb have "isFinite (getWest b)" "isFinite (getEast b)"
    by (simp_all add: finiteBounds_def)
  with cross have "numOf (getEast b) < numOf (getWest b)"
    by (simp add: cmp_finite)
  with st w e lat have "specBoundingBoxIntersects ring b"
    by (auto simp: specBoundingBoxIntersects_def straddles180_def rangesOverlap_def Let_def)
  with assms(2-4) ne assms(6) fb show ?thesis
    by (intro visible_if_spec[where wb = b and g = g and ring = ring]) (simp_all add: view_in_wrapped)
qed

text \<open>
  C6. For a view with \<open>west > east\<close>, \<^verbatim>\<open>getWrappedBounds\<close> returns the view, the two
  halves \<open>[south, west]-[north, 180]\<close> and \<open>[south, -180]-[north, east]\<close>, and the copies
  shifted by \<open>-360\<close> and \<open>+360\<close> degrees, in this order. A feature is reported visible
  whenever the bounding box of one of its outer rings (of finite coordinates) intersects,
  in the specification's sense, a finite box of that list; when all outer rings are finite
  with longitudes in \<open>[-180, 180]\<close> and all boxes are finite, a feature is reported only
  then. In particular a feature with an outer ring that straddles longitude 180 is
  visible in a finite view with \<open>west \<le> 180\<close> and \<open>-180 \<le> east\<close> whose latitude range
  overlaps the ring's.
\<close>

theorem wrapped_bounds_antimeridian:
  assumes cross: "js_gt (getWest b) (getEast b)"
  shows "getWrappedBounds latLngBounds b =
     [b,
      latLngBounds \<lparr>lat = getSouth b, lng = getWest b\<rparr> \<lparr>lat = getNorth b, lng = Num 180\<rparr>,
      latLngBounds \<lparr>lat = getSouth b, lng = Num (- 180)\<rparr> \<lparr>lat = getNorth b, lng = getEast b\<rparr>,
      latLngBounds \<lparr>lat = getSouth b, lng = js_add (getWest b) (Num (- 360))\<rparr>
                   \<lparr>lat = getNorth b, lng = js_add (getEast b) (Num (- 360))\<rparr>,
      latLngBounds \<lparr>lat = getSouth b, lng = js_add (getWest b) (Num 360)\<rparr>
                   \<lparr>lat = getNorth b, lng = js_add (getEast b) (Num 360)\<rparr>] \<and>
   (\<forall>f g ring wb.
      f \<in> set features \<and> geometry f = Some g \<and>
      ring \<in> set (outerRings g) \<and> ring \<noteq> [] \<and> finiteRing ring \<and>
      wb \<in> set (getWrappedBounds latLngBounds b) \<and> finiteBounds wb \<and>
      specBoundingBoxIntersects ring wb \<longrightarrow>
      f \<in> set (getVisibleGrids latLngBounds features b)) \<and>
   (\<forall>f g.
      f \<in> set (getVisibleGrids latLngBounds features b) \<and> geometry f = Some g \<and>
      (\<forall>ring\<in>set (outerRings g). finiteRing ring \<and> lngsInRange ring) \<and>
      (\<forall>wb\<in>set (getWrappedBounds latLngBounds b). finiteBounds wb) \<longrightarrow>
      f \<in> set features \<and>
      (\<exists>ring\<in>set (outerRings g). ring \<noteq> [] \<and>
         (\<exists>wb\<in>set (getWrappedBounds latLngBounds b). specBoundingBoxIntersects ring wb))) \<and>
   (\<forall>f g ring.
      f \<in> set features \<and> geometry f = Some g \<and>
      ring \<in> set (outerRings g) \<and> ring \<noteq> [] \<and> finiteRing ring \<and> straddles180 ring \<and>
      finiteBounds b \<and> numOf (getWest b) \<le> 180 \<and> - 180 \<le> numOf (getEast b) \<and>
      rangesOverlap (Min (latOf ` set ring)) (Max (latOf ` set ring))
        (numOf (getSouth b)) (numOf (getNorth b)) \<longrightarrow>
      f \<in> set (getVisibleGrids latLngBounds features b))"
proof (intro conjI allI impI)
  show "getWrappedBounds latLngBounds b =
     [b,
      latLngBounds \<lparr>lat = getSouth b, lng = getWest b\<rparr> \<lparr>lat = getNorth b, lng = Num 180\<rparr>,
      latLngBounds \<lparr>lat = getSouth b, lng = Num (- 180)\<rparr> \<lparr>lat = getNorth b, lng = getEast b\<rparr>,
      latLngBounds \<lparr>lat = getSouth b, lng = js_add (getWest b) (Num (- 360))\<rparr>
                   \<lparr>lat = getNorth b, lng = js_add (getEast b) (Num (- 360))\<rparr>,
      latLngBounds \<lparr>lat = getSouth b, lng = js_add (getWest b) (Num 360)\<rparr>
                   \<lparr>lat = getNorth b, lng = js_add (getEast b) (Num 360)\<rparr>]"
    by (rule getWrappedBounds_crossing[OF cross])
next
  fix f g ring wb
  assume "f \<in> set features \<and> geometry f = Some g \<and>
      ring \<in> set (outerRings g) \<and> ring \<noteq> [] \<and> finiteRing ring \<and>
      wb \<in> set (getWrappedBounds latLngBounds b) \<and> finiteBounds wb \<and>
      specBoundingBoxIntersects ring wb"
  then show "f \<in> set (getVisibleGrids latLngBounds features b)"
    by (intro visible_if_spec[where wb = wb and g = g and ring = ring]) simp_all
next
  fix f g
  assume a: "f \<in> set (getVisibleGrids latLngBounds features b) \<and> geometry f = Some g \<and>
      (\<forall>ring\<in>set (outerRings g). finiteRing ring \<and> lngsInRange ring) \<and>
      (\<forall>wb\<in>set (getWrappedBounds latLngBounds b). finiteBounds wb)"
  then show "f \<in> set features"
    by (simp add: getVisibleGrids_def Let_def)
  from a show "\<exists>ring\<in>set (outerRings g). ring \<noteq> [] \<and>
         (\<exists>wb\<in>set (getWrappedBounds latLngBounds b). specBoundingBoxIntersects ring wb)"
    by (intro spec_if_visible[where f = f and features = features]) simp_all
next
  fix f g ring
  assume "f \<in> set features \<and> geometry f = Some g \<and>
      ring \<in> set (outerRings g) \<and> ring \<noteq> [] \<and> finiteRing ring \<and> straddles180 ring \<and>
      finiteBounds b \<and> numOf (getWest b) \<le> 180 \<and> - 180 \<le> numOf (getEast b) \<and>
      rangesOverlap (Min (latOf ` set ring)) (Max (latOf ` set ring))
        (numOf (getSouth b)) (numOf (getNorth b))"
  then show "f \<in> set (getVisibleGrids latLngBounds features b)"
    by (intro straddling_visible[OF cross, where g = g and ring = ring]) simp_all
qed

theorem wrapped_bounds_antimeridian_witness:
  "js_gt (getWest view170) (getEast view170) \<and>
   length (getWrappedBounds cornerBounds view170) = 5 \<and>
   straddles180 (square 179 (- 5) 181 5) \<and>
   tile180 \<in> set (getVisibleGrids cornerBounds [tileA, tile180] view170) \<and>
   tileA \<notin> set (getVisibleGrids cornerBounds [tileA, tile180] view170)"
proof -
  let ?r180 = "square 179 (- 5) 181 5"
  let ?rA = "square 0 0 10 10"
  let ?wbs = "getWrappedBounds cornerBounds view170"
  have h: "js_gt (getWest view170) (getEast view170)"
    by code_simp
  note t = wrapped_bounds_antimeridian[OF h, of cornerBounds "[tileA, tile180]"]
  from t have len: "length ?wbs = 5"
    by simp
  have st: "straddles180 ?r180"
    by code_simp
  have hyp180:
    "tile180 \<in> set [tileA, tile180] \<and> geometry tile180 = Some (Polygon [?r180]) \<and>
     ?r180 \<in> set (outerRings (Polygon [?r180])) \<and> ?r180 \<noteq> [] \<and> finiteRing ?r180 \<and>
     straddles180 ?r180 \<and> finiteBounds view170 \<and> numOf (getWest view170) \<le> 180 \<and>
     - 180 \<le> numOf (getEast view170) \<and>
     rangesOverlap (Min (latOf ` set ?r180)) (Max (latOf ` set ?r180))
       (numOf (getSouth view170)) (numOf (getNorth view170))"
    by code_simp
  from t hyp180 have vis: "tile180 \<in> set (getVisibleGrids cornerBounds [tileA, tile180] view170)"
    by blast
  have gA: "geometry tileA = Some (Polygon [?rA])"
    by (simp add: tileA_def tile_def)
  have finA: "\<forall>ring\<in>set (outerRings (Polygon [?rA])). finiteRing ring \<and> lngsInRange ring"
    by code_simp
  have finB: "\<forall>wb\<in>set ?wbs. finiteBounds wb"
    by code_simp
  have miss: "\<not> (\<exists>ring\<in>set (outerRings (Polygon [?rA])). ring \<noteq> [] \<and>
                  (\<exists>wb\<in>set ?wbs. specBoundingBoxIntersects ring wb))"
    by code_simp
  from t gA finA finB miss
  have hid: "tileA \<notin> set (getVisibleGrids cornerBounds [tileA, tile180] view170)"
    by blast
  from h len st vis hid show ?thesis
    by simp
qed

subsection \<open>Centroid of a ring without usable coordinates\<close>

text \<open>
  C8 at a failing input. An outer ring whose only coordinate has one component passes the
  guard on the empty ring, no coordinate is valid, and the averages are \<open>0 / 0\<close>: the
  result is a centroid whose fields are NaN, not \<open>null\<close>. A MultiPolygon without
  polygons raises \<^verbatim>\<open>TypeError\<close> at \<^verbatim>\<open>coordinates[0][0]\<close>.
\<close>

theorem getPolygonCentroid_no_usable_pairs:
  "getPolygonCentroid (Some (Polygon [[[Num 5]]])) = Inr (Some \<lparr>lat = NaN, lng = NaN\<rparr>) \<and>
   \<not> isFinite NaN \<and>
   getPolygonCentroid (Some (MultiPolygon [])) = Inl TypeError"
  by code_simp

subsection \<open>Share-state codec\<close>

lemma isSpace_upperChar: "isSpace (upperChar c) = isSpace c"
  by (simp add: upperChar_def isSpace_def)

lemma comma_upperChar: "(upperChar c = CHR '','') = (c = CHR '','')"
  by (simp add: upperChar_def)

lemma comma_toUpperCase: "(CHR '','' \<in> set (toUpperCase s)) = (CHR '','' \<in> set s)"
proof -
  have "(CHR '','' \<in> set (toUpperCase s)) = (\<exists>c\<in>set s. upperChar c = CHR '','')"
    unfolding toUpperCase_def set_map image_iff by (intro bex_cong refl) (rule eq_commute)
  then show ?thesis
    by (simp add: comma_upperChar)
qed

lemma toUpperCase_Nil: "(toUpperCase s = []) = (s = [])"
  by (simp add: toUpperCase_def)

lemma dropWhile_isSpace_upper:
  "dropWhile isSpace (map upperChar s) = map upperChar (dropWhile isSpace s)"
  by (induction s) (simp_all add: isSpace_upperChar)

lemma trim_toUpperCase: "trim (toUpperCase s) = toUpperCase (trim s)"
  by (simp add: trim_def toUpperCase_def dropWhile_isSpace_upper rev_map)

lemma wellFormed_upper: "wellFormedName n \<Longrightarrow> wellFormedName (toUpperCase n)"
  by (simp add: wellFormedName_def toUpperCase_Nil comma_toUpperCase trim_toUpperCase)

lemma split_no_sep: "c \<notin> set x \<Longrightarrow> split c x = [x]"
  by (induction x) auto

lemma split_append_sep: "c \<notin> set x \<Longrightarrow> split c (x @ c # r) = x # split c r"
  by (induction x) auto

lemma split_join:
  "xs \<noteq> [] \<Longrightarrow> \<forall>x\<in>set xs. c \<notin> set x \<Longrightarrow> split c (join [c] xs) = xs"
proof (induction xs)
  case Nil
  then show ?case by simp
next
  case (Cons x xs)
  show ?case
  proof (cases xs)
    case Nil
    with Cons.prems show ?thesis by (simp add: split_no_sep)
  next
    case (Cons y ys)
    with Cons.prems Cons.IH have "split c (join [c] (y # ys)) = y # ys" by simp
    moreover from Cons.prems have "c \<notin> set x" by simp
    ultimately show ?thesis
      using Cons by (simp add: split_append_sep)
  qed
qed

lemma join_two_nonempty: "2 \<le> length xs \<Longrightarrow> join [c] xs \<noteq> []"
proof (cases xs)
  case Nil
  assume "2 \<le> length xs"
  with Nil show ?thesis by simp
next
  case (Cons x ys)
  assume "2 \<le> length xs"
  with Cons obtain y zs where "ys = y # zs" by (cases ys) auto
  with Cons show ?thesis by simp
qed

lemma pushTrimmed_id:
  "\<forall>n\<in>set ns. wellFormedName n \<and> toUpperCase n = n \<Longrightarrow> pushTrimmed ns = ns"
proof -
  assume a: "\<forall>n\<in>set ns. wellFormedName n \<and> toUpperCase n = n"
  then have "map trim ns = ns"
    by (intro map_idI) (simp add: wellFormedName_def)
  moreover from a have "filter (\<lambda>t. 0 < length t) ns = ns"
    by (intro filter_True) (simp add: wellFormedName_def)
  moreover from a have "map toUpperCase ns = ns"
    by (intro map_idI) simp
  ultimately show ?thesis
    by (simp add: pushTrimmed_def)
qed

lemma paramsGet_Nil: "paramsGet [] k = None"
  by (simp add: paramsGet_def)

lemma paramsGet_Cons: "paramsGet ((k, v) # q) k' = (if k = k' then Some v else paramsGet q k')"
  by (simp add: paramsGet_def)

lemma paramsGet_delete_same: "paramsGet (paramsDelete q k) k = None"
  by (induction q) (auto simp: paramsGet_def paramsDelete_def)

lemma paramsGet_delete_other: "k' \<noteq> k \<Longrightarrow> paramsGet (paramsDelete q k) k' = paramsGet q k'"
  by (induction q) (auto simp: paramsGet_def paramsDelete_def)

lemma paramsGet_set_same: "paramsGet (paramsSet q k v) k = Some v"
  by (induction q) (auto simp: paramsGet_def)

lemma paramsGet_set_other: "k' \<noteq> k \<Longrightarrow> paramsGet (paramsSet q k v) k' = paramsGet q k'"
  by (induction q) (auto simp: paramsGet_def paramsGet_delete_other[unfolded paramsGet_def])

lemma sorted_names:
  "set (sort (unique xs)) = set xs" "distinct (sort (unique xs))"
  by (simp_all add: unique_set unique_distinct)

text \<open>What the encoder leaves in the two parameters.\<close>

lemma encoded_params:
  fixes names :: "string list" and q :: query and urlParses :: bool
  defines "ns \<equiv> sort (unique (map toUpperCase names))"
  defines "q' \<equiv> updateAddressBarWithSelection urlParses q names"
  shows "paramsGet q' ''grid'' = (if length ns = 1 then Some (ns ! 0) else None)"
    and "paramsGet q' ''grids'' = (if 1 < length ns then Some (join '','' ns) else None)"
proof -
  have ne: "''grid'' \<noteq> ''grids''" "''grids'' \<noteq> ''grid''" by simp_all
  show "paramsGet q' ''grid'' = (if length ns = 1 then Some (ns ! 0) else None)"
    unfolding q'_def updateAddressBarWithSelection_def ns_def[symmetric] Let_def
    by (simp add: paramsGet_set_same paramsGet_set_other paramsGet_delete_same
          paramsGet_delete_other paramsGet_Nil paramsGet_Cons)
  show "paramsGet q' ''grids'' = (if 1 < length ns then Some (join '','' ns) else None)"
    unfolding q'_def updateAddressBarWithSelection_def ns_def[symmetric] Let_def
    by (simp add: paramsGet_set_same paramsGet_set_other paramsGet_delete_same
          paramsGet_delete_other paramsGet_Nil paramsGet_Cons)
qed

lemma decode_params:
  assumes grid: "paramsGet q' ''grid'' = (if length ns = 1 then Some (ns ! 0) else None)"
      and grids: "paramsGet q' ''grids'' = (if 1 < length ns then Some (join '','' ns) else None)"
      and good: "\<forall>n\<in>set ns. wellFormedName n \<and> toUpperCase n = n"
      and dist: "distinct ns"
  shows "getGridParamsFromUrl q' = (if ns = [] then None else Some ns)"
proof (cases ns)
  case Nil
  with grid grids show ?thesis
    by (simp add: getGridParamsFromUrl_def Let_def unique_def)
next
  case (Cons n rest)
  show ?thesis
  proof (cases rest)
    case Nil
    with Cons good have gn: "wellFormedName n \<and> toUpperCase n = n"
      by simp
    then have pt: "pushTrimmed [n] = [n]"
      by (intro pushTrimmed_id) simp
    from gn have nn: "n \<noteq> []"
      by (simp add: wellFormedName_def)
    from grid grids Cons Nil have "paramsGet q' ''grid'' = Some n" "paramsGet q' ''grids'' = None"
      by simp_all
    with nn show ?thesis
      by (simp add: getGridParamsFromUrl_def Let_def pt unique_def Cons Nil)
  next
    case (Cons n2 rest2)
    with \<open>ns = n # rest\<close> have two: "2 \<le> length ns" and ne: "ns \<noteq> []"
      by simp_all
    from good have nocomma: "\<forall>x\<in>set ns. CHR '','' \<notin> set x"
      by (simp add: wellFormedName_def)
    have sp: "split CHR '','' (join '','' ns) = ns"
      by (rule split_join[OF ne nocomma])
    have pt: "pushTrimmed ns = ns"
      by (rule pushTrimmed_id[OF good])
    have j: "join '','' ns \<noteq> []"
      by (rule join_two_nonempty[OF two])
    from grid grids two have "paramsGet q' ''grid'' = None"
      "paramsGet q' ''grids'' = Some (join '','' ns)"
      by simp_all
    with j ne show ?thesis
      by (simp add: getGridParamsFromUrl_def Let_def sp pt unique_id[OF dist])
  qed
qed

text \<open>
  C3 (as the code has it). The encoder leaves \<open>grid\<close> set exactly when there is one
  normalised name and \<open>grids\<close> set, to the comma-joined names, exactly when there are
  two or more. For names that are not empty, hold no comma and have no white space at
  either end, decoding the encoded query yields the upper-cased, de-duplicated, sorted
  names, and yields \<open>null\<close> exactly for no names.
\<close>

theorem url_codec_round_trip:
  assumes wf: "\<forall>n\<in>set names. wellFormedName n"
  shows "decodedNames (getGridParamsFromUrl (updateAddressBarWithSelection urlParses q names)) =
         sort (unique (map toUpperCase names)) \<and>
         (getGridParamsFromUrl (updateAddressBarWithSelection urlParses q names) = None) =
         (names = []) \<and>
         paramsGet (updateAddressBarWithSelection urlParses q names) ''grid'' =
           (if length (sort (unique (map toUpperCase names))) = 1
            then Some (sort (unique (map toUpperCase names)) ! 0) else None) \<and>
         paramsGet (updateAddressBarWithSelection urlParses q names) ''grids'' =
           (if 1 < length (sort (unique (map toUpperCase names)))
            then Some (join '','' (sort (unique (map toUpperCase names)))) else None)"
proof -
  let ?ns = "sort (unique (map toUpperCase names))"
  let ?q = "updateAddressBarWithSelection urlParses q names"
  have dist: "distinct ?ns"
    by (simp add: unique_distinct)
  have good: "\<forall>n\<in>set ?ns. wellFormedName n \<and> toUpperCase n = n"
    using wf by (auto simp: unique_set wellFormed_upper toUpperCase_idem)
  have "set ?ns = toUpperCase ` set names"
    by (simp add: unique_set)
  then have nil: "(?ns = []) = (names = [])"
    by (metis empty_is_image set_empty)
  have res: "getGridParamsFromUrl ?q = (if ?ns = [] then None else Some ?ns)"
    by (rule decode_params[OF encoded_params(1) encoded_params(2) good dist])
  have "decodedNames (getGridParamsFromUrl ?q) = ?ns"
    unfolding res decodedNames_def by simp
  moreover have "(getGridParamsFromUrl ?q = None) = (names = [])"
    unfolding res using nil by simp
  ultimately show ?thesis
    using encoded_params(1)[of urlParses q names] encoded_params(2)[of urlParses q names]
    by (intro conjI)
qed

theorem url_codec_round_trip_witness:
  "wellFormedName ''02abc'' \<and> wellFormedName ''01CCV'' \<and> wellFormedName ''01ccv'' \<and>
   updateAddressBarWithSelection True [(''zoom'', ''7''), (''grid'', ''99ZZZ'')]
     [''02abc'', ''01CCV'', ''01ccv''] = [(''zoom'', ''7''), (''grids'', ''01CCV,02ABC'')] \<and>
   getGridParamsFromUrl [(''zoom'', ''7''), (''grids'', ''01CCV,02ABC'')] =
     Some [''01CCV'', ''02ABC'']"
proof -
  let ?names = "[''02abc'', ''01CCV'', ''01ccv'']"
  let ?q = "[(''zoom'', ''7''), (''grid'', ''99ZZZ'')]"
  have w: "wellFormedName ''02abc'' \<and> wellFormedName ''01CCV'' \<and> wellFormedName ''01ccv''"
    by code_simp
  then have h: "\<forall>n\<in>set ?names. wellFormedName n"
    by simp
  have enc: "updateAddressBarWithSelection True ?q ?names =
             [(''zoom'', ''7''), (''grids'', ''01CCV,02ABC'')]"
    by code_simp
  have norm: "sort (unique (map toUpperCase ?names)) = [''01CCV'', ''02ABC'']"
    by code_simp
  from url_codec_round_trip[OF h, of True ?q]
  have "decodedNames (getGridParamsFromUrl (updateAddressBarWithSelection True ?q ?names)) =
          sort (unique (map toUpperCase ?names))"
    and "getGridParamsFromUrl (updateAddressBarWithSelection True ?q ?names) \<noteq> None"
    by simp_all
  with enc norm have "getGridParamsFromUrl [(''zoom'', ''7''), (''grids'', ''01CCV,02ABC'')] =
     Some [''01CCV'', ''02ABC'']"
    by (auto simp: decodedNames_def)
  with w enc show ?thesis
    by simp
qed

text \<open>
  The claim as stated fails on names outside this form: a comma inside a name splits it,
  white space at an end is trimmed away, and the empty name is dropped.
\<close>

theorem url_codec_round_trip_counterexample:
  "getGridParamsFromUrl (updateAddressBarWithSelection True [] [''A,B'', ''C'']) =
     Some [''A'', ''B'', ''C''] \<and>
   sort (unique (map toUpperCase [''A,B'', ''C''])) = [''A,B'', ''C''] \<and>
   getGridParamsFromUrl (updateAddressBarWithSelection True [] ['' 01CCV'']) = Some [''01CCV''] \<and>
   sort (unique (map toUpperCase ['' 01CCV''])) = ['' 01CCV''] \<and>
   getGridParamsFromUrl (updateAddressBarWithSelection True [] [[]]) = None \<and>
   sort (unique (map toUpperCase [[]])) = [[]]"
  by code_simp

subsection \<open>CSV export\<close>

lemma csvRowValues_ok:
  assumes "entryOk p"
  shows "\<exists>rest. csvRowValues toFixed keys (snd p) = Inr (entryName (snd p) # rest)"
proof -
  from assms have nm: "entryName (snd p) \<noteq> []"
    and c: "getPolygonCentroid (geometry (entryFeature (snd p))) = Inr (entryCentroid (snd p))"
    by (simp_all add: entryOk_def getGridName_nonempty)
  show ?thesis
  proof (cases "entryCentroid (snd p)")
    case None
    with nm c show ?thesis
      by (simp add: csvRowValues_def Let_def str_or_def)
  next
    case (Some a)
    with nm show ?thesis
      by (simp add: csvRowValues_def Let_def str_or_def)
  qed
qed

lemma csvRows_ok:
  "list_all entryOk m \<Longrightarrow>
   \<exists>rows. csvRows toFixed keys (map snd m) = Inr rows \<and>
          length rows = length m \<and>
          map (take 1) rows = map (\<lambda>p. [entryName (snd p)]) m"
proof (induction m)
  case Nil
  then show ?case by simp
next
  case (Cons p m)
  from Cons.prems have "entryOk p" and "list_all entryOk m"
    by simp_all
  from csvRowValues_ok[OF this(1), of toFixed keys] obtain rest where
    r: "csvRowValues toFixed keys (snd p) = Inr (entryName (snd p) # rest)"
    by blast
  from Cons.IH[OF \<open>list_all entryOk m\<close>] obtain rows where
    rs: "csvRows toFixed keys (map snd m) = Inr rows" "length rows = length m"
        "map (take 1) rows = map (\<lambda>p. [entryName (snd p)]) m"
    by blast
  show ?case
    using r rs by (intro exI[where x = "(entryName (snd p) # rest) # rows"]) simp
qed

text \<open>
  C2 (as the code has it). For every reachable state with a non-empty selection,
  \<^verbatim>\<open>downloadSelectionAsCSV\<close> raises no exception and hands over the header line
  followed by exactly one data row per selected entry; the rows appear in the order in
  which \<^verbatim>\<open>getSelectedEntries\<close> lists the entries, the insertion order of the store, and
  the first value of each row is the name of its entry.
\<close>

theorem csv_rows_in_insertion_order:
  assumes "reachable s" and "selectedGridMap s \<noteq> []"
  shows "\<exists>rows.
           csvRows toFixed (orderedPropertyKeys (getSelectedEntries s)) (getSelectedEntries s) =
             Inr rows \<and>
           length rows = length (getSelectedEntries s) \<and>
           map (take 1) rows = map (\<lambda>e. [entryName e]) (getSelectedEntries s) \<and>
           downloadSelectionAsCSV toFixed s =
             Inr (Download ''text/csv''
                    (join [CHR 0x0A]
                       (csvLine ([''name'', ''centroid_lat'', ''centroid_lng''] @
                                 orderedPropertyKeys (getSelectedEntries s)) #
                        map csvLine rows)))"
proof -
  let ?keys = "orderedPropertyKeys (getSelectedEntries s)"
  from reachable_storeInv[OF assms(1)] have "list_all entryOk (selectedGridMap s)"
    by (simp add: storeInv_def)
  from csvRows_ok[OF this, of toFixed ?keys] obtain rows where
    rs: "csvRows toFixed ?keys (map snd (selectedGridMap s)) = Inr rows"
        "length rows = length (selectedGridMap s)"
        "map (take 1) rows = map (\<lambda>p. [entryName (snd p)]) (selectedGridMap s)"
    by blast
  show ?thesis
  proof (intro exI[where x = rows] conjI)
    show "csvRows toFixed ?keys (getSelectedEntries s) = Inr rows"
      using rs(1) by (simp add: getSelectedEntries_def)
    show "length rows = length (getSelectedEntries s)"
      using rs(2) by (simp add: getSelectedEntries_def)
    show "map (take 1) rows = map (\<lambda>e. [entryName e]) (getSelectedEntries s)"
      using rs(3) by (simp add: getSelectedEntries_def comp_def)
    show "downloadSelectionAsCSV toFixed s =
             Inr (Download ''text/csv''
                    (join [CHR 0x0A]
                       (csvLine ([''name'', ''centroid_lat'', ''centroid_lng''] @ ?keys) #
                        map csvLine rows)))"
      using rs(1) assms(2) by (simp add: downloadSelectionAsCSV_def Let_def getSelectedEntries_def)
  qed
qed

theorem csv_rows_in_insertion_order_witness:
  "reachable stateBA \<and> selectedGridMap stateBA \<noteq> [] \<and>
   map entryName (getSelectedEntries stateBA) = [''B'', ''A''] \<and>
   downloadSelectionAsCSV (\<lambda>x n. []) stateBA =
     Inr (Download ''text/csv''
            (''name,centroid_lat,centroid_lng'' @ [CHR 0x0A] @ ''B,,'' @ [CHR 0x0A] @ ''A,,''))"
proof -
  have r: "reachable stateBA"
    unfolding stateBA_def by (rule reach_update[OF reach_init])
  have ne: "selectedGridMap stateBA \<noteq> []"
    by code_simp
  have names: "map entryName (getSelectedEntries stateBA) = [''B'', ''A'']"
    by code_simp
  have keys: "orderedPropertyKeys (getSelectedEntries stateBA) = []"
    by code_simp
  have cells: "csvRows (\<lambda>x n. []) [] (getSelectedEntries stateBA) = Inr [[''B'', [], []], [''A'', [], []]]"
    by code_simp
  from csv_rows_in_insertion_order[OF r ne, of "\<lambda>x n. []"] obtain rows where
    rs: "csvRows (\<lambda>x n. []) (orderedPropertyKeys (getSelectedEntries stateBA))
           (getSelectedEntries stateBA) = Inr rows" and
    d: "downloadSelectionAsCSV (\<lambda>x n. []) stateBA =
          Inr (Download ''text/csv''
                 (join [CHR 0x0A]
                    (csvLine ([''name'', ''centroid_lat'', ''centroid_lng''] @
                              orderedPropertyKeys (getSelectedEntries stateBA)) #
                     map csvLine rows)))"
    by blast
  from rs cells keys have "rows = [[''B'', [], []], [''A'', [], []]]"
    by simp
  with d keys have "downloadSelectionAsCSV (\<lambda>x n. []) stateBA =
     Inr (Download ''text/csv''
            (''name,centroid_lat,centroid_lng'' @ [CHR 0x0A] @ ''B,,'' @ [CHR 0x0A] @ ''A,,''))"
    by (simp add: csvLine_def escapeCsvValue_def)
  with r ne names show ?thesis
    by simp
qed

text \<open>
  The claim as stated fails: after \<open>B\<close> and then \<open>A\<close> were selected the rows are \<open>B\<close>,
  \<open>A\<close>, while the sorted names, and the share URL built from them, are \<open>A\<close>, \<open>B\<close>.
\<close>

theorem csv_rows_sorted_counterexample:
  "csvRows (\<lambda>x n. []) (orderedPropertyKeys (getSelectedEntries stateBA))
     (getSelectedEntries stateBA) = Inr [[''B'', [], []], [''A'', [], []]] \<and>
   sort (map entryName (getSelectedEntries stateBA)) = [''A'', ''B''] \<and>
   updateAddressBarWithSelection True [] (map entryName (getSelectedEntries stateBA)) =
     [(''grids'', ''A,B'')]"
  by code_simp

end
